theory Spec2Isabelle
  imports Main "HOL-Library.Sublist"
begin

section \<open>Strings of the host language\<close>

text \<open>
  A string of the program is a sequence of code units, modelled as \<^typ>\<open>string\<close>.
  The functions of this section are the string methods the program calls:
  \<^verbatim>\<open>lastIndexOf\<close>, \<^verbatim>\<open>slice\<close>, \<^verbatim>\<open>substring\<close>, \<^verbatim>\<open>startsWith\<close>, \<^verbatim>\<open>includes\<close>,
  \<^verbatim>\<open>toLowerCase\<close>, \<^verbatim>\<open>trim\<close>, \<^verbatim>\<open>split\<close> and \<^verbatim>\<open>join\<close>.
\<close>

fun lastIndexOf :: "string \<Rightarrow> char \<Rightarrow> int" where
  "lastIndexOf [] c = - 1"
| "lastIndexOf (x # xs) c =
     (let r = lastIndexOf xs c
      in if 0 \<le> r then r + 1 else if x = c then 0 else - 1)"

definition toUint32 :: "int \<Rightarrow> int" where
  \<comment> \<open>\<^verbatim>\<open>n >>> 0\<close>\<close>
  "toUint32 n = n mod 4294967296"

definition slice_from :: "string \<Rightarrow> int \<Rightarrow> string" where
  \<comment> \<open>\<^verbatim>\<open>s.slice(start)\<close>: a negative start counts from the end\<close>
  "slice_from s start =
     (if start < 0 then drop (nat (max 0 (int (length s) + start))) s
      else drop (nat start) s)"

definition substring0 :: "string \<Rightarrow> int \<Rightarrow> string" where
  \<comment> \<open>\<^verbatim>\<open>s.substring(0, e)\<close>: a negative end is clamped to 0\<close>
  "substring0 s e = take (nat (max 0 e)) s"

definition startsWith :: "string \<Rightarrow> string \<Rightarrow> bool" where
  "startsWith s p = (take (length p) s = p)"

fun includes' :: "string \<Rightarrow> string \<Rightarrow> bool" where
  "includes' [] t = (t = [])"
| "includes' (c # cs) t = (startsWith (c # cs) t \<or> includes' cs t)"

definition lower_char :: "char \<Rightarrow> char" where
  "lower_char c =
     (let n = (of_char c :: nat)
      in if (65 \<le> n \<and> n \<le> 90) \<or> (192 \<le> n \<and> n \<le> 222 \<and> n \<noteq> 215)
         then char_of (n + 32) else c)"

definition toLowerCase :: "string \<Rightarrow> string" where
  "toLowerCase s = map lower_char s"

definition is_space :: "char \<Rightarrow> bool" where
  \<comment> \<open>white space and line terminators among the code units below 256\<close>
  "is_space c = ((of_char c :: nat) \<in> {9, 10, 11, 12, 13, 32, 160})"

definition trim :: "string \<Rightarrow> string" where
  "trim s = rev (dropWhile is_space (rev (dropWhile is_space s)))"

text \<open>
  \<^verbatim>\<open>s.split(sep)\<close> for a string separator: the pieces between the successive leftmost
  occurrences of \<open>sep\<close>. \<open>split_from\<close> carries the piece read so far, reversed. With the
  empty separator the result is the list of the code units.
\<close>

function split_from :: "string \<Rightarrow> string \<Rightarrow> string \<Rightarrow> string list" where
  "split_from sep cur s =
     (if sep = [] then [rev cur @ s]
      else if s = [] then [rev cur]
      else if startsWith s sep then rev cur # split_from sep [] (drop (length sep) s)
      else split_from sep (hd s # cur) (tl s))"
  by pat_completeness auto
termination
  by (relation "measure (\<lambda>(sep, cur, s). length s)") auto

declare split_from.simps [simp del]

definition split :: "string \<Rightarrow> string \<Rightarrow> string list" where
  "split s sep = (if sep = [] then map (\<lambda>c. [c]) s else split_from sep [] s)"

fun join :: "string list \<Rightarrow> string \<Rightarrow> string" where
  "join [] sep = []"
| "join [x] sep = x"
| "join (x # y # ys) sep = x @ sep @ join (y # ys) sep"

section \<open>File name helpers (utils/fileUtils.ts)\<close>

definition getExtension :: "string \<Rightarrow> string" where
  "getExtension filename =
     slice_from filename (toUint32 (lastIndexOf filename CHR ''.'' - 1) + 2)"

definition getBaseName :: "string \<Rightarrow> string" where
  "getBaseName filename =
     (let lastDot = lastIndexOf filename CHR ''.''
      in if lastDot = - 1 then filename else substring0 filename lastDot)"

section \<open>Data model (types.ts)\<close>

datatype Status = Pending | Processing | Success | Error | Skipped

datatype SortType = name_asc | name_desc | date_asc | date_desc | size_asc | size_desc

type_synonym handle = nat
type_synonym bytes = "nat list"

record GlobalConfig =
  prefix :: string
  suffix :: string
  extension :: string
  overwrite :: bool
  find' :: string
  replace :: string

record FilterState =
  search :: string
  dateStart :: string
  dateEnd :: string
  minSize :: int
  sort' :: SortType
  limit :: "int option"

record FileItem =
  id' :: string
  handle :: handle
  originalName :: string
  size' :: int
  lastModified :: int
  type' :: string
  customBaseName :: string
  prefix :: string
  suffix :: string
  extension :: string
  status :: Status
  errorMessage :: "string option"

section \<open>Name derivation\<close>

definition or_else :: "string \<Rightarrow> string \<Rightarrow> string" where
  \<comment> \<open>\<^verbatim>\<open>a || b\<close> on strings: the empty string is the only falsy one\<close>
  "or_else a b = (if a \<noteq> [] then a else b)"

definition getFinalName :: "GlobalConfig \<Rightarrow> FileItem \<Rightarrow> string" where
  "getFinalName globalConfig f =
     (let prefix = or_else (prefix f) (GlobalConfig.prefix globalConfig);
          suffix = or_else (suffix f) (GlobalConfig.suffix globalConfig);
          ext = or_else (or_else (extension f) (GlobalConfig.extension globalConfig))
                  (getExtension (originalName f));
          base = (if find' globalConfig \<noteq> []
                  then join (split (customBaseName f) (find' globalConfig)) (replace globalConfig)
                  else customBaseName f);
          dot = (if ext \<noteq> [] \<and> \<not> startsWith ext ''.'' then ''.'' else [])
      in prefix @ base @ suffix @ dot @ ext)"


text \<open>
  The second component's \<^verbatim>\<open>getFinalName\<close> (lines 678-684) has no find-and-replace step.
\<close>

definition getFinalName2 :: "GlobalConfig \<Rightarrow> FileItem \<Rightarrow> string" where
  "getFinalName2 globalConfig f =
     (let prefix = or_else (prefix f) (GlobalConfig.prefix globalConfig);
          suffix = or_else (suffix f) (GlobalConfig.suffix globalConfig);
          ext = or_else (or_else (extension f) (GlobalConfig.extension globalConfig))
                  (getExtension (originalName f));
          dot = (if ext \<noteq> [] \<and> \<not> startsWith ext ''.'' then ''.'' else [])
      in prefix @ customBaseName f @ suffix @ dot @ ext)"

section \<open>Scanning a directory\<close>

datatype entry_kind = KFile | KDirectory

record file_meta =
  name :: string
  fsize :: int
  flastModified :: int
  ftype :: string

record scan_entry =
  kind :: entry_kind
  entry_handle :: handle
  entry_getFile :: "string + file_meta"

definition new_item :: "string \<Rightarrow> scan_entry \<Rightarrow> file_meta \<Rightarrow> FileItem" where
  "new_item uuid entry file =
     \<lparr>id' = uuid, handle = entry_handle entry, originalName = name file, size' = fsize file,
      lastModified = flastModified file, type' = ftype file,
      customBaseName = getBaseName (name file),
      prefix = [], suffix = [], extension = getExtension (name file),
      status = Pending, errorMessage = None\<rparr>"

text \<open>
  The loop of \<^verbatim>\<open>scanFiles\<close>. \<open>randomUUID\<close> is the supply of identifiers, read at
  successive positions; \<open>Inl\<close> is an exception thrown by \<^verbatim>\<open>getFile\<close>.
\<close>

fun scan_loop :: "(nat \<Rightarrow> string) \<Rightarrow> nat \<Rightarrow> scan_entry list \<Rightarrow> string + FileItem list" where
  "scan_loop randomUUID n [] = Inr []"
| "scan_loop randomUUID n (entry # es) =
     (if kind entry = KFile
      then (case entry_getFile entry of
              Inl msg \<Rightarrow> Inl msg
            | Inr file \<Rightarrow>
                (case scan_loop randomUUID (Suc n) es of
                   Inl msg \<Rightarrow> Inl msg
                 | Inr newFiles \<Rightarrow> Inr (new_item (randomUUID n) entry file # newFiles)))
      else scan_loop randomUUID n es)"

definition scanFiles :: "(nat \<Rightarrow> string) \<Rightarrow> string + scan_entry list \<Rightarrow> FileItem list \<Rightarrow> FileItem list" where
  \<comment> \<open>the listing is \<open>Inl\<close> when the enumeration itself throws; the collection is then kept\<close>
  "scanFiles randomUUID listing files =
     (case listing of
        Inl msg \<Rightarrow> files
      | Inr entries \<Rightarrow>
          (case scan_loop randomUUID 0 entries of Inl msg \<Rightarrow> files | Inr newFiles \<Rightarrow> newFiles))"

section \<open>Filter, sort and limit\<close>

text \<open>
  Two built-ins of the host depend on its locale and time zone and are parameters:
  \<open>newDate s\<close> is \<^verbatim>\<open>new Date(s)\<close> and \<open>localeCompare a b\<close> is \<^verbatim>\<open>a.localeCompare(b)\<close>.
\<close>

datatype date = InvalidDate | Date int

record host =
  newDate :: "string \<Rightarrow> date"
  localeCompare :: "string \<Rightarrow> string \<Rightarrow> int"

fun date_ge :: "date \<Rightarrow> date \<Rightarrow> bool" where
  "date_ge (Date a) (Date b) = (b \<le> a)"
| "date_ge _ _ = False"

fun date_le :: "date \<Rightarrow> date \<Rightarrow> bool" where
  "date_le (Date a) (Date b) = (a \<le> b)"
| "date_le _ _ = False"

definition matchesSearch :: "FilterState \<Rightarrow> FileItem \<Rightarrow> bool" where
  "matchesSearch filters f =
     includes' (toLowerCase (originalName f)) (toLowerCase (search filters))"

definition matchesSize :: "FilterState \<Rightarrow> FileItem \<Rightarrow> bool" where
  "matchesSize filters f = (minSize filters * 1024 \<le> size' f)"

definition matchesDate :: "host \<Rightarrow> FilterState \<Rightarrow> FileItem \<Rightarrow> bool" where
  "matchesDate h filters f =
     (let fileDate = Date (lastModified f);
          start = (if dateStart filters \<noteq> []
                   then Some (newDate h (dateStart filters @ ''T00:00:00'')) else None);
          end' = (if dateEnd filters \<noteq> []
                  then Some (newDate h (dateEnd filters @ ''T23:59:59'')) else None)
      in (case start of None \<Rightarrow> True | Some s \<Rightarrow> date_ge fileDate s) \<and>
         (case end' of None \<Rightarrow> True | Some e \<Rightarrow> date_le fileDate e))"

definition compareItems :: "host \<Rightarrow> SortType \<Rightarrow> FileItem \<Rightarrow> FileItem \<Rightarrow> int" where
  "compareItems h s a b =
     (case s of
        name_asc \<Rightarrow> localeCompare h (originalName a) (originalName b)
      | name_desc \<Rightarrow> localeCompare h (originalName b) (originalName a)
      | date_asc \<Rightarrow> lastModified a - lastModified b
      | date_desc \<Rightarrow> lastModified b - lastModified a
      | size_asc \<Rightarrow> size' a - size' b
      | size_desc \<Rightarrow> size' b - size' a)"

text \<open>
  \<^verbatim>\<open>Array.prototype.sort\<close> with a comparator is a stable sort in the language standard;
  it is modelled by insertion from the right, each element going before the first
  element it does not compare greater than.
\<close>

fun insert_by :: "('a \<Rightarrow> 'a \<Rightarrow> int) \<Rightarrow> 'a \<Rightarrow> 'a list \<Rightarrow> 'a list" where
  "insert_by cmp x [] = [x]"
| "insert_by cmp x (y # ys) = (if cmp x y \<le> 0 then x # y # ys else y # insert_by cmp x ys)"

fun sort_by :: "('a \<Rightarrow> 'a \<Rightarrow> int) \<Rightarrow> 'a list \<Rightarrow> 'a list" where
  "sort_by cmp [] = []"
| "sort_by cmp (x # xs) = insert_by cmp x (sort_by cmp xs)"

definition filteredFiles :: "host \<Rightarrow> FileItem list \<Rightarrow> FilterState \<Rightarrow> FileItem list" where
  "filteredFiles h files filters =
     (let result = filter (\<lambda>f. matchesSearch filters f \<and> matchesDate h filters f) files;
          result = sort_by (compareItems h (sort' filters)) result
      in case limit filters of
           Some n \<Rightarrow> if 0 < n then take (nat n) result else result
         | None \<Rightarrow> result)"

text \<open>
  The second component's \<^verbatim>\<open>filteredFiles\<close> (lines 628-663) has the size clause and no limit.
\<close>

definition filteredFiles2 :: "host \<Rightarrow> FileItem list \<Rightarrow> FilterState \<Rightarrow> FileItem list" where
  "filteredFiles2 h files filters =
     (let result = filter (\<lambda>f. matchesSearch filters f \<and> matchesSize filters f \<and>
                                matchesDate h filters f) files
      in sort_by (compareItems h (sort' filters)) result)"

section \<open>Editing a field of one item\<close>

text \<open>
  The change handlers of the table's four inputs (lines 382-391): the item with the
  given identifier gets the new value in one field.
\<close>

datatype field = FPrefix | FBaseName | FSuffix | FExtension

definition edit_field :: "field \<Rightarrow> string \<Rightarrow> string \<Rightarrow> FileItem list \<Rightarrow> FileItem list" where
  "edit_field fld fid v prev =
     map (\<lambda>i. if id' i = fid
              then (case fld of
                      FPrefix \<Rightarrow> i\<lparr>prefix := v\<rparr>
                    | FBaseName \<Rightarrow> i\<lparr>customBaseName := v\<rparr>
                    | FSuffix \<Rightarrow> i\<lparr>suffix := v\<rparr>
                    | FExtension \<Rightarrow> i\<lparr>extension := v\<rparr>)
              else i) prev"

section \<open>Pasted names\<close>

fun findIndex :: "('a \<Rightarrow> bool) \<Rightarrow> 'a list \<Rightarrow> nat option" where
  \<comment> \<open>\<open>None\<close> is the result \<^verbatim>\<open>-1\<close>\<close>
  "findIndex P [] = None"
| "findIndex P (x # xs) = (if P x then Some 0 else map_option Suc (findIndex P xs))"

definition pasted_lines :: "string \<Rightarrow> string list" where
  "pasted_lines pastedNames = filter (\<lambda>n. trim n \<noteq> []) (split pastedNames [CHR 0x0A])"

text \<open>
  \<open>visible\<close> is the value of \<^verbatim>\<open>filteredFiles\<close> that the closure holds, \<open>prev\<close> the collection.
\<close>

definition applyPastedNames :: "string \<Rightarrow> FileItem list \<Rightarrow> FileItem list \<Rightarrow> FileItem list" where
  "applyPastedNames pastedNames visible prev =
     (let names = pasted_lines pastedNames
      in map (\<lambda>f. case findIndex (\<lambda>ff. id' ff = id' f) visible of
                     None \<Rightarrow> f
                   | Some idxInView \<Rightarrow>
                       if idxInView < length names \<and> names ! idxInView \<noteq> []
                       then f\<lparr>customBaseName := trim (names ! idxInView)\<rparr> else f) prev)"


section \<open>Batch execution\<close>

text \<open>
  The destination directory maps the names of its files to their bytes. The record
  \<open>io\<close> holds what the file system answers: \<open>getFile\<close> reads a source file or throws
  (\<open>Inl\<close> the message), and the four fault fields say for which names the calls
  \<^verbatim>\<open>getFileHandle(name, {create: true})\<close>, \<^verbatim>\<open>createWritable\<close>, \<^verbatim>\<open>write\<close> and \<^verbatim>\<open>close\<close>
  throw, and with which message.
\<close>

type_synonym directory = "string \<rightharpoonup> bytes"

record io =
  getFile :: "handle \<Rightarrow> string + bytes"
  getFileHandle_fault :: "string \<Rightarrow> string option"
  createWritable_fault :: "string \<Rightarrow> string option"
  write_fault :: "string \<Rightarrow> string option"
  close_fault :: "string \<Rightarrow> string option"

text \<open>
  Opening with \<^verbatim>\<open>create: true\<close> makes an empty file when there is none; the bytes written
  replace the file's content when the writable is closed. The result is the message
  thrown, if any, and the directory left behind.
\<close>

definition write_file :: "io \<Rightarrow> string \<Rightarrow> bytes \<Rightarrow> directory \<Rightarrow> string option \<times> directory" where
  "write_file io finalName sourceFile dir =
     (case getFileHandle_fault io finalName of
        Some msg \<Rightarrow> (Some msg, dir)
      | None \<Rightarrow>
          (let dir1 = (case dir finalName of None \<Rightarrow> dir(finalName \<mapsto> []) | Some old \<Rightarrow> dir)
           in case createWritable_fault io finalName of
                Some msg \<Rightarrow> (Some msg, dir1)
              | None \<Rightarrow>
                  (case write_fault io finalName of
                     Some msg \<Rightarrow> (Some msg, dir1)
                   | None \<Rightarrow>
                       (case close_fault io finalName of
                          Some msg \<Rightarrow> (Some msg, dir1)
                        | None \<Rightarrow> (None, dir1(finalName \<mapsto> sourceFile))))))"

definition update_at :: "nat option \<Rightarrow> ('a \<Rightarrow> 'a) \<Rightarrow> 'a list \<Rightarrow> 'a list" where
  \<comment> \<open>\<^verbatim>\<open>xs[idx] = {...xs[idx], changes}\<close>; at index \<^verbatim>\<open>-1\<close> no element of the array changes\<close>
  "update_at idx g xs = (case idx of None \<Rightarrow> xs | Some i \<Rightarrow> xs[i := g (xs ! i)])"

record batch_state =
  updatedFiles :: "FileItem list"
  destDir :: directory
  setFiles_log :: "FileItem list list"

text \<open>
  The body of the \<^verbatim>\<open>try\<close> block of the first component (lines 194-199): the message
  thrown, if any, and the directory afterwards.
\<close>

definition copy_item :: "io \<Rightarrow> GlobalConfig \<Rightarrow> FileItem \<Rightarrow> directory \<Rightarrow> string option \<times> directory" where
  "copy_item io globalConfig f dir =
     (let finalName = getFinalName globalConfig f
      in case getFile io (handle f) of
           Inl msg \<Rightarrow> (Some msg, dir)
         | Inr sourceFile \<Rightarrow> write_file io finalName sourceFile dir)"

text \<open>
  One round of the loop (lines 189-205). \<open>setFiles_log\<close> collects the snapshots passed
  to \<^verbatim>\<open>setFiles\<close>, oldest first.
\<close>

definition batch_step :: "io \<Rightarrow> GlobalConfig \<Rightarrow> FileItem \<Rightarrow> batch_state \<Rightarrow> batch_state" where
  "batch_step io globalConfig f st =
     (let idx = findIndex (\<lambda>uf. id' uf = id' f) (updatedFiles st);
          files1 = update_at idx (\<lambda>u. u\<lparr>status := Processing\<rparr>) (updatedFiles st);
          r = copy_item io globalConfig f (destDir st);
          files2 = (case fst r of
                      None \<Rightarrow> update_at idx (\<lambda>u. u\<lparr>status := Success\<rparr>) files1
                    | Some msg \<Rightarrow>
                        update_at idx (\<lambda>u. u\<lparr>status := Error, errorMessage := Some msg\<rparr>) files1)
      in \<lparr>updatedFiles = files2, destDir = snd r,
          setFiles_log = setFiles_log st @ [files1, files2]\<rparr>)"

text \<open>
  \<^verbatim>\<open>executeBatch\<close> of the first component (lines 184-207). \<open>files\<close> and \<open>visible\<close> are the
  values of \<^verbatim>\<open>files\<close> and \<^verbatim>\<open>filteredFiles\<close> that the closure holds; without a destination
  handle it returns at once (\<open>None\<close>).
\<close>

definition executeBatch ::
  "io \<Rightarrow> GlobalConfig \<Rightarrow> FileItem list \<Rightarrow> FileItem list \<Rightarrow> directory option \<Rightarrow> batch_state option" where
  "executeBatch io globalConfig files visible destHandle =
     (case destHandle of
        None \<Rightarrow> None
      | Some dir \<Rightarrow>
          Some (fold (batch_step io globalConfig) visible
                  \<lparr>updatedFiles = files, destDir = dir, setFiles_log = []\<rparr>))"

text \<open>
  The second component (lines 686-724) first looks the name up with \<^verbatim>\<open>create: false\<close>,
  which throws when there is no such file. The names are those of its own
  \<^verbatim>\<open>getFinalName\<close> (lines 678-684). The third component's loop (lines 1242-1280) builds its
  names otherwise (line 1238) and is not part of this model.
\<close>

datatype outcome = Written | Exists | Thrown string

definition copy_item2 :: "io \<Rightarrow> GlobalConfig \<Rightarrow> FileItem \<Rightarrow> directory \<Rightarrow> outcome \<times> directory" where
  "copy_item2 io globalConfig f dir =
     (let finalName = getFinalName2 globalConfig f
      in case getFile io (handle f) of
           Inl msg \<Rightarrow> (Thrown msg, dir)
         | Inr sourceFile \<Rightarrow>
             if dir finalName \<noteq> None \<and> \<not> overwrite globalConfig then (Exists, dir)
             else (let w = write_file io finalName sourceFile dir
                   in case fst w of None \<Rightarrow> (Written, snd w) | Some msg \<Rightarrow> (Thrown msg, snd w)))"

definition batch_step2 :: "io \<Rightarrow> GlobalConfig \<Rightarrow> FileItem \<Rightarrow> batch_state \<Rightarrow> batch_state" where
  "batch_step2 io globalConfig f st =
     (let idx = findIndex (\<lambda>uf. id' uf = id' f) (updatedFiles st);
          files1 = update_at idx (\<lambda>u. u\<lparr>status := Processing\<rparr>) (updatedFiles st);
          r = copy_item2 io globalConfig f (destDir st);
          files2 = (case fst r of
                      Exists \<Rightarrow>
                        update_at idx (\<lambda>u. u\<lparr>status := Skipped, errorMessage := Some ''Ya existe''\<rparr>) files1
                    | Written \<Rightarrow> update_at idx (\<lambda>u. u\<lparr>status := Success\<rparr>) files1
                    | Thrown msg \<Rightarrow>
                        update_at idx (\<lambda>u. u\<lparr>status := Error, errorMessage := Some msg\<rparr>) files1)
      in \<lparr>updatedFiles = files2, destDir = snd r,
          setFiles_log = setFiles_log st @ [files1, files2]\<rparr>)"

definition executeBatch2 ::
  "io \<Rightarrow> GlobalConfig \<Rightarrow> FileItem list \<Rightarrow> FileItem list \<Rightarrow> directory option \<Rightarrow> batch_state option" where
  "executeBatch2 io globalConfig files visible destHandle =
     (case destHandle of
        None \<Rightarrow> None
      | Some dir \<Rightarrow>
          Some (fold (batch_step2 io globalConfig) visible
                  \<lparr>updatedFiles = files, destDir = dir, setFiles_log = []\<rparr>))"

section \<open>Notions of the specification\<close>

definition terminal :: "Status \<Rightarrow> bool" where
  "terminal s = (s = Success \<or> s = Error \<or> s = Skipped)"

text \<open>
  Replacing every non-overlapping occurrence of a literal substring, read from the left.
\<close>

fun replaceAll :: "string \<Rightarrow> string \<Rightarrow> string \<Rightarrow> string" where
  "replaceAll fnd rep [] = []"
| "replaceAll fnd rep (c # cs) =
     (if fnd \<noteq> [] \<and> startsWith (c # cs) fnd
      then rep @ replaceAll fnd rep (drop (length fnd) (c # cs))
      else c # replaceAll fnd rep cs)"

text \<open>The derived name in the words of the specification.\<close>

definition spec_finalName :: "GlobalConfig \<Rightarrow> FileItem \<Rightarrow> string" where
  "spec_finalName globalConfig item =
     (let effectivePrefix = (if prefix item \<noteq> [] then prefix item
                             else GlobalConfig.prefix globalConfig);
          effectiveSuffix = (if suffix item \<noteq> [] then suffix item
                             else GlobalConfig.suffix globalConfig);
          effectiveExtension =
            (if extension item \<noteq> [] then extension item
             else if GlobalConfig.extension globalConfig \<noteq> []
                  then GlobalConfig.extension globalConfig
                  else getExtension (originalName item));
          base = (if find' globalConfig \<noteq> []
                  then replaceAll (find' globalConfig) (replace globalConfig) (customBaseName item)
                  else customBaseName item);
          dot = (if effectiveExtension \<noteq> [] \<and> hd effectiveExtension \<noteq> CHR ''.''
                 then ''.'' else [])
      in effectivePrefix @ base @ effectiveSuffix @ dot @ effectiveExtension)"


text \<open>
  The item an entry of the collection becomes when the copy of its file ends: in the
  first component by the message thrown, if any; in the second by the outcome.
\<close>

definition finished :: "string option \<Rightarrow> FileItem \<Rightarrow> FileItem" where
  "finished thrown u =
     (case thrown of
        None \<Rightarrow> u\<lparr>status := Success\<rparr>
      | Some msg \<Rightarrow> u\<lparr>status := Error, errorMessage := Some msg\<rparr>)"

definition finished2 :: "outcome \<Rightarrow> FileItem \<Rightarrow> FileItem" where
  "finished2 r u =
     (case r of
        Exists \<Rightarrow> u\<lparr>status := Skipped, errorMessage := Some ''Ya existe''\<rparr>
      | Written \<Rightarrow> u\<lparr>status := Success\<rparr>
      | Thrown msg \<Rightarrow> u\<lparr>status := Error, errorMessage := Some msg\<rparr>)"

text \<open>
  The failure of an item in the first component, if any: the message of the read that
  throws, or else of the first of the four calls on the destination that throws.
\<close>

definition first_fault :: "io \<Rightarrow> string \<Rightarrow> string option" where
  "first_fault io finalName =
     (case getFileHandle_fault io finalName of
        Some msg \<Rightarrow> Some msg
      | None \<Rightarrow>
          (case createWritable_fault io finalName of
             Some msg \<Rightarrow> Some msg
           | None \<Rightarrow>
               (case write_fault io finalName of
                  Some msg \<Rightarrow> Some msg
                | None \<Rightarrow> close_fault io finalName)))"

definition failure :: "io \<Rightarrow> GlobalConfig \<Rightarrow> FileItem \<Rightarrow> string option" where
  "failure io globalConfig f =
     (case getFile io (handle f) of
        Inl msg \<Rightarrow> Some msg
      | Inr sourceFile \<Rightarrow> first_fault io (getFinalName globalConfig f))"

text \<open>The three filter clauses in the words of the specification.\<close>

definition search_clause :: "FilterState \<Rightarrow> FileItem \<Rightarrow> bool" where
  \<comment> \<open>the search text occurs in the original name, letter case apart\<close>
  "search_clause filters f =
     (\<exists>a b. toLowerCase (originalName f) = a @ toLowerCase (search filters) @ b)"

definition size_clause :: "FilterState \<Rightarrow> FileItem \<Rightarrow> bool" where
  \<comment> \<open>the size in bytes is at least the minimum, which is kept in kilobytes\<close>
  "size_clause filters f = (minSize filters * 1024 \<le> size' f)"

definition date_clause :: "host \<Rightarrow> FilterState \<Rightarrow> FileItem \<Rightarrow> bool" where
  \<comment> \<open>the modification time lies between the first and the last second of the two days\<close>
  "date_clause h filters f =
     ((dateStart filters = [] \<or>
        (\<exists>s. newDate h (dateStart filters @ ''T00:00:00'') = Date s \<and> s \<le> lastModified f)) \<and>
      (dateEnd filters = [] \<or>
        (\<exists>e. newDate h (dateEnd filters @ ''T23:59:59'') = Date e \<and> lastModified f \<le> e)))"

section \<open>Example data\<close>

text \<open>
  A host that compares strings by their code units and knows the two instants of one
  day; a file system without faults, where the file behind handle \<open>h\<close> holds the single
  byte \<open>h\<close>, and one where no source file can be read; items as a scan makes them.
\<close>

fun code_compare :: "string \<Rightarrow> string \<Rightarrow> int" where
  "code_compare [] [] = 0"
| "code_compare [] (y # ys) = - 1"
| "code_compare (x # xs) [] = 1"
| "code_compare (x # xs) (y # ys) =
     (if (of_char x :: nat) < of_char y then - 1
      else if (of_char y :: nat) < of_char x then 1
      else code_compare xs ys)"

definition ex_host :: host where
  "ex_host =
     \<lparr>newDate = (\<lambda>s. if s = ''2024-01-01T00:00:00'' then Date 1704067200000
                      else if s = ''2024-01-01T23:59:59'' then Date 1704153599000
                      else InvalidDate),
      localeCompare = code_compare\<rparr>"

definition ex_meta :: "string \<Rightarrow> int \<Rightarrow> int \<Rightarrow> file_meta" where
  "ex_meta nm sz lm = \<lparr>name = nm, fsize = sz, flastModified = lm, ftype = []\<rparr>"

definition ex_entry :: "handle \<Rightarrow> string \<Rightarrow> int \<Rightarrow> int \<Rightarrow> scan_entry" where
  "ex_entry h nm sz lm =
     \<lparr>kind = KFile, entry_handle = h, entry_getFile = Inr (ex_meta nm sz lm)\<rparr>"

definition ex_file :: "string \<Rightarrow> handle \<Rightarrow> string \<Rightarrow> int \<Rightarrow> int \<Rightarrow> FileItem" where
  "ex_file uuid h nm sz lm = new_item uuid (ex_entry h nm sz lm) (ex_meta nm sz lm)"

definition ex_config :: GlobalConfig where
  "ex_config =
     \<lparr>GlobalConfig.prefix = [], suffix = [], extension = [], overwrite = False,
      find' = [], replace = []\<rparr>"

definition ex_filters :: FilterState where
  "ex_filters =
     \<lparr>search = [], dateStart = [], dateEnd = [], minSize = 0, sort' = name_asc, limit = None\<rparr>"

definition ex_io :: io where
  "ex_io =
     \<lparr>getFile = (\<lambda>h. Inr [h]), getFileHandle_fault = (\<lambda>n. None),
      createWritable_fault = (\<lambda>n. None), write_fault = (\<lambda>n. None), close_fault = (\<lambda>n. None)\<rparr>"

definition ex_io_unreadable :: io where
  "ex_io_unreadable = ex_io\<lparr>getFile := (\<lambda>h. Inl ''NotReadableError'')\<rparr>"

definition ex_a :: FileItem where
  "ex_a = ex_file ''1'' 1 ''b.txt'' 5 0"

definition ex_b :: FileItem where
  "ex_b = ex_file ''2'' 2 ''a.txt'' 5 0"

definition ex_c :: FileItem where
  "ex_c = ex_file ''3'' 3 ''c.txt'' 1 0"

definition ex_io_b_unreadable :: io where
  "ex_io_b_unreadable = ex_io\<lparr>getFile := (\<lambda>h. if h = 2 then Inl ''NotReadableError'' else Inr [h])\<rparr>"

definition ex_pasted :: string where
  \<comment> \<open>four lines: \<open>x\<close>, an empty one, \<open>y\<close> between blanks, and \<open>z\<close>\<close>
  "ex_pasted = ''x'' @ [CHR 0x0A, CHR 0x0A] @ '' y '' @ [CHR 0x0A] @ ''z''"

definition ex_d :: FileItem where
  "ex_d = ex_file ''4'' 4 ''Data.TXT'' 2048 1704100000000"

definition ex_e :: FileItem where
  "ex_e = ex_file ''5'' 5 ''beta.txt'' 10 1704100000000"

definition ex_g :: FileItem where
  "ex_g = ex_file ''6'' 6 ''gamma.txt'' 4096 1704100000000"

definition ex_day :: FilterState where
  "ex_day = ex_filters\<lparr>search := ''A.T'', dateStart := ''2024-01-01'', dateEnd := ''2024-01-01'',
                        minSize := 1\<rparr>"

text \<open>
  Two runs of the second component over \<open>ex_a\<close> and \<open>ex_b\<close> into an empty directory, and
  two over \<open>ex_a\<close> into a directory that already has a file of its name.
\<close>

definition ex_first_run :: batch_state where
  "ex_first_run = the (executeBatch2 ex_io ex_config [ex_a, ex_b] [ex_a, ex_b] (Some Map.empty))"

definition ex_second_run :: batch_state where
  "ex_second_run =
     the (executeBatch2 ex_io ex_config (updatedFiles ex_first_run) (updatedFiles ex_first_run)
            (Some (destDir ex_first_run)))"

definition ex_dir_b :: directory where
  "ex_dir_b = Map.empty(''b.txt'' \<mapsto> [9])"

definition ex_run_b :: batch_state where
  "ex_run_b = the (executeBatch2 ex_io ex_config [ex_a] [ex_a] (Some ex_dir_b))"

definition ex_rerun_b :: batch_state where
  "ex_rerun_b =
     the (executeBatch2 ex_io ex_config (updatedFiles ex_run_b) (updatedFiles ex_run_b)
            (Some (destDir ex_run_b)))"

text \<open>
  An item with the name of \<open>ex_a\<close>, and two runs of the second component over both into
  an empty directory.
\<close>

definition ex_twin :: FileItem where
  "ex_twin = ex_file ''7'' 7 ''b.txt'' 9 0"

definition ex_twin_run :: batch_state where
  "ex_twin_run = the (executeBatch2 ex_io ex_config [ex_a, ex_twin] [ex_a, ex_twin] (Some Map.empty))"

definition ex_twin_rerun :: batch_state where
  "ex_twin_rerun =
     the (executeBatch2 ex_io ex_config (updatedFiles ex_twin_run) (updatedFiles ex_twin_run)
            (Some (destDir ex_twin_run)))"

section \<open>Splitting and joining is replacing\<close>

lemma join_cons: "join (x # xs) sep = (if xs = [] then x else x @ sep @ join xs sep)"
  by (cases xs) auto

lemma split_from_ne: "split_from sep cur s \<noteq> []"
  by (induction sep cur s rule: split_from.induct) (subst split_from.simps, auto)

lemma join_split_from:
  "sep \<noteq> [] \<Longrightarrow> join (split_from sep cur s) rep = rev cur @ replaceAll sep rep s"
proof (induction sep cur s rule: split_from.induct)
  case (1 sep cur s)
  show ?case
  proof (cases s)
    case Nil
    then show ?thesis using 1(3) by (subst split_from.simps) simp
  next
    case (Cons c cs)
    show ?thesis
    proof (cases "startsWith s sep")
      case True
      then show ?thesis using 1(1)[OF 1(3) _ True] 1(3) Cons
        by (subst split_from.simps) (simp add: join_cons split_from_ne)
    next
      case False
      then show ?thesis using 1(2)[OF 1(3) _ False] 1(3) Cons
        by (subst split_from.simps) simp
    qed
  qed
qed

lemma join_split: "sep \<noteq> [] \<Longrightarrow> join (split s sep) rep = replaceAll sep rep s"
  by (simp add: split_def join_split_from)

lemma startsWith_dot: "ext \<noteq> [] \<Longrightarrow> startsWith ext ''.'' \<longleftrightarrow> hd ext = CHR ''.''"
  by (cases ext) (auto simp: startsWith_def)

lemma or_else_if: "or_else a b = (if a \<noteq> [] then a else b)"
  by (simp add: or_else_def)

lemma dot_eq:
  "(if ext \<noteq> [] \<and> \<not> startsWith ext ''.'' then ''.'' else []) =
   (if ext \<noteq> [] \<and> hd ext \<noteq> CHR ''.'' then ''.'' else [])"
  by (cases "ext = []") (simp_all add: startsWith_dot)

section \<open>The derived name\<close>

text \<open>
  Claim C1. For every file item and global configuration, the name computed by
  \<^verbatim>\<open>getFinalName\<close> is the effective prefix, the base, the effective suffix, the dot and
  the effective extension of the specification: an item's own non-empty prefix, suffix
  or extension wins over the global one, the extension of the original name is the last
  resort, the base is the custom base name with every non-overlapping occurrence of a
  non-empty \<^verbatim>\<open>find\<close> replaced literally, and the dot is there exactly when the effective
  extension is non-empty and does not begin with one.
\<close>

theorem getFinalName_spec: "getFinalName globalConfig item = spec_finalName globalConfig item"
proof -
  let ?ext = "or_else (or_else (extension item) (GlobalConfig.extension globalConfig))
                  (getExtension (originalName item))"
  have e: "?ext = (if extension item \<noteq> [] then extension item
             else if GlobalConfig.extension globalConfig \<noteq> []
                  then GlobalConfig.extension globalConfig
                  else getExtension (originalName item))"
    by (simp add: or_else_def)
  have b: "(if find' globalConfig \<noteq> []
                  then join (split (customBaseName item) (find' globalConfig)) (replace globalConfig)
                  else customBaseName item) = (if find' globalConfig \<noteq> []
                  then replaceAll (find' globalConfig) (replace globalConfig) (customBaseName item)
                  else customBaseName item)"
    by (simp add: join_split)
  show ?thesis
    unfolding getFinalName_def spec_finalName_def Let_def b dot_eq [of ?ext]
    unfolding e by (simp add: or_else_if)
qed


section \<open>Sorting, searching and scanning\<close>

lemma set_insert_by: "set (insert_by cmp x ys) = insert x (set ys)"
  by (induction ys) auto

lemma set_sort_by: "set (sort_by cmp xs) = set xs"
  by (induction xs) (auto simp: set_insert_by)

lemma length_insert_by: "length (insert_by cmp x ys) = Suc (length ys)"
  by (induction ys) auto

lemma length_sort_by: "length (sort_by cmp xs) = length xs"
  by (induction xs) (auto simp: length_insert_by)

lemma filter_insert_by:
  assumes "\<And>y. P x \<Longrightarrow> P y \<Longrightarrow> cmp x y \<le> 0"
  shows "filter P (insert_by cmp x ys) = (if P x then x # filter P ys else filter P ys)"
  using assms by (induction ys) auto

lemma filter_sort_by:
  assumes "\<And>x y. P x \<Longrightarrow> P y \<Longrightarrow> cmp x y \<le> 0"
  shows "filter P (sort_by cmp xs) = filter P xs"
  using assms by (induction xs) (simp_all add: filter_insert_by)

lemma compareItems_refl:
  "\<forall>a. localeCompare h a a = 0 \<Longrightarrow> compareItems h s a a = 0"
  by (cases s) (simp_all add: compareItems_def)

lemma compareItems_eucl:
  assumes e: "\<forall>a b c. localeCompare h a b = 0 \<longrightarrow> localeCompare h a c = 0 \<longrightarrow> localeCompare h b c = 0"
    and r: "\<forall>a. localeCompare h a a = 0"
    and kx: "compareItems h s k x = 0" and ky: "compareItems h s k y = 0"
  shows "compareItems h s x y = 0"
proof -
  have sym: "localeCompare h a b = 0 \<Longrightarrow> localeCompare h b a = 0" for a b
    using e[rule_format, of a b a] r[rule_format, of a] by simp
  show ?thesis
  proof (cases s)
    case name_asc
    then show ?thesis
      using kx ky e[rule_format, of "originalName k" "originalName x" "originalName y"]
      by (simp add: compareItems_def)
  next
    case name_desc
    then have x: "localeCompare h (originalName x) (originalName k) = 0"
      and y: "localeCompare h (originalName y) (originalName k) = 0"
      using kx ky by (simp_all add: compareItems_def)
    have "localeCompare h (originalName k) (originalName x) = 0"
      "localeCompare h (originalName k) (originalName y) = 0"
      using sym[OF x] sym[OF y] by simp_all
    then have "localeCompare h (originalName y) (originalName x) = 0"
      using e[rule_format, of "originalName k" "originalName y" "originalName x"] by simp
    then show ?thesis using name_desc by (simp add: compareItems_def)
  qed (use kx ky in \<open>simp_all add: compareItems_def\<close>)
qed

lemma includes_iff: "includes' s t \<longleftrightarrow> (\<exists>a b. s = a @ t @ b)"
proof (induction s)
  case Nil
  then show ?case by auto
next
  case (Cons c cs)
  have sw: "startsWith (c # cs) t \<longleftrightarrow> (\<exists>b. c # cs = t @ b)"
    unfolding startsWith_def
    by (metis append_eq_conv_conj append_take_drop_id)
  show ?case
  proof
    assume "includes' (c # cs) t"
    then consider "startsWith (c # cs) t" | "includes' cs t" by auto
    then show "\<exists>a b. c # cs = a @ t @ b"
    proof cases
      case 1
      then obtain b where "c # cs = t @ b" using sw by blast
      then have "c # cs = [] @ t @ b" by simp
      then show ?thesis by blast
    next
      case 2
      then obtain a b where "cs = a @ t @ b" using Cons.IH by blast
      then have "c # cs = (c # a) @ t @ b" by simp
      then show ?thesis by blast
    qed
  next
    assume "\<exists>a b. c # cs = a @ t @ b"
    then obtain a b where ab: "c # cs = a @ t @ b" by blast
    show "includes' (c # cs) t"
    proof (cases a)
      case Nil
      then have "startsWith (c # cs) t" using ab sw by auto
      then show ?thesis by simp
    next
      case (Cons a0 as)
      then have "cs = as @ t @ b" using ab by simp
      then show ?thesis using Cons.IH by auto
    qed
  qed
qed

lemma lastIndexOf_bounds: "- 1 \<le> lastIndexOf s c \<and> lastIndexOf s c < int (length s)"
  by (induction s) (auto simp: Let_def)

lemma getExtension_char:
  assumes "length s < 4294967296"
  shows "getExtension s =
     (if lastIndexOf s CHR ''.'' \<le> 0 then [] else drop (nat (lastIndexOf s CHR ''.'') + 1) s)"
proof -
  let ?i = "lastIndexOf s CHR ''.''"
  have b: "- 1 \<le> ?i" "?i < int (length s)" using lastIndexOf_bounds[of s] by auto
  consider "?i = - 1" | "?i = 0" | "1 \<le> ?i" using b by linarith
  then show ?thesis
  proof cases
    case 1
    then show ?thesis using assms by (simp add: getExtension_def toUint32_def slice_from_def)
  next
    case 2
    then show ?thesis using assms by (simp add: getExtension_def toUint32_def slice_from_def)
  next
    case 3
    then have "toUint32 (?i - 1) = ?i - 1" using b assms by (simp add: toUint32_def)
    then show ?thesis using 3 by (simp add: getExtension_def slice_from_def nat_add_distrib)
  qed
qed

lemma scan_loop_items:
  "scan_loop randomUUID n entries = Inr newFiles \<Longrightarrow> f \<in> set newFiles \<Longrightarrow>
     extension f = getExtension (originalName f) \<and> customBaseName f = getBaseName (originalName f) \<and>
     prefix f = [] \<and> suffix f = [] \<and> status f = Pending \<and> errorMessage f = None"
proof (induction entries arbitrary: n newFiles)
  case Nil
  then show ?case by simp
next
  case (Cons e es)
  then show ?case
    by (auto simp: new_item_def split: if_splits sum.splits)
qed

lemma getFinalName_item_ext:
  "extension f \<noteq> [] \<Longrightarrow>
     getFinalName (g\<lparr>GlobalConfig.extension := e\<rparr>) f = getFinalName g f"
  by (simp add: getFinalName_def or_else_def)

lemma getFinalName_global_ext:
  "e \<noteq> [] \<Longrightarrow>
     getFinalName (g\<lparr>GlobalConfig.extension := e\<rparr>) (f\<lparr>extension := []\<rparr>) =
     getFinalName g (f\<lparr>extension := e\<rparr>)"
  by (simp add: getFinalName_def or_else_def)


text \<open>
  Claim C10. Every item made by a scan has its own extension field set to the extension
  of its original name, which is empty only when the name has no dot after its first
  character or ends with its last dot. Hence, for a freshly scanned item whose original
  name has an extension, changing the global extension does not change the derived name;
  once the item's field is cleared, a non-empty global extension is used as the item's
  own would be.
\<close>

theorem scan_extension:
  assumes "scan_loop randomUUID n entries = Inr newFiles" and "f \<in> set newFiles"
  shows "extension f = getExtension (originalName f) \<and>
         (length (originalName f) < 4294967296 \<longrightarrow>
            (extension f = [] \<longleftrightarrow>
               lastIndexOf (originalName f) CHR ''.'' \<le> 0 \<or>
               lastIndexOf (originalName f) CHR ''.'' + 1 = int (length (originalName f)))) \<and>
         (getExtension (originalName f) \<noteq> [] \<longrightarrow>
            getFinalName (g\<lparr>GlobalConfig.extension := e\<rparr>) f = getFinalName g f) \<and>
         (e \<noteq> [] \<longrightarrow>
            getFinalName (g\<lparr>GlobalConfig.extension := e\<rparr>) (f\<lparr>extension := []\<rparr>) =
            getFinalName g (f\<lparr>extension := e\<rparr>))"
proof -
  have x: "extension f = getExtension (originalName f)"
    using scan_loop_items[OF assms] by simp
  have c: "length (originalName f) < 4294967296 \<Longrightarrow>
            (extension f = [] \<longleftrightarrow>
               lastIndexOf (originalName f) CHR ''.'' \<le> 0 \<or>
               lastIndexOf (originalName f) CHR ''.'' + 1 = int (length (originalName f)))"
    using lastIndexOf_bounds[of "originalName f" "CHR ''.''"]
    by (auto simp: x getExtension_char)
  show ?thesis
    using x c getFinalName_item_ext[where f=f and g=g and e=e] getFinalName_global_ext[where f=f and g=g and e=e] by simp
qed


section \<open>The visible set\<close>

lemma subseq_take': "subseq (take n xs) xs"
  by (induction xs arbitrary: n) (simp_all add: take_Cons split: nat.splits)

lemma filter_take_subseq: "subseq (filter P (take n xs)) (filter P xs)"
  by (simp add: subseq_take')

lemma matches_limit:
  "matchesSearch (filters\<lparr>limit := l\<rparr>) = matchesSearch filters"
  "matchesDate h (filters\<lparr>limit := l\<rparr>) = matchesDate h filters"
  by (auto simp: matchesSearch_def matchesDate_def fun_eq_iff)

lemma filteredFiles_unlimited_subseq:
  "subseq (filteredFiles h files filters) (filteredFiles h files (filters\<lparr>limit := None\<rparr>))"
  by (simp add: filteredFiles_def Let_def subseq_take' matches_limit split: option.splits)

lemma class_unlimited:
  assumes r: "\<forall>a. localeCompare h a a = 0"
    and e: "\<forall>a b c. localeCompare h a b = 0 \<longrightarrow> localeCompare h a c = 0 \<longrightarrow> localeCompare h b c = 0"
  shows "filter (\<lambda>y. compareItems h (sort' filters) k y = 0)
           (filteredFiles h files (filters\<lparr>limit := None\<rparr>)) =
         filter (\<lambda>y. compareItems h (sort' filters) k y = 0)
           (filter (\<lambda>f. matchesSearch filters f \<and> matchesDate h filters f) files)"
proof -
  have "compareItems h (sort' filters) x y \<le> 0"
    if "compareItems h (sort' filters) k x = 0" "compareItems h (sort' filters) k y = 0" for x y
    using compareItems_eucl[OF e r that] by simp
  then show ?thesis
    by (simp add: filteredFiles_def matches_limit filter_sort_by)
qed


text \<open>
  Claim C8. The sort of the visible set is stable: when the comparator chosen by the sort
  key finds two items equal and the first stands before the second in the visible set,
  then the first stands before the second in the collection. The host's string
  comparison is taken to find every string equal to itself and two strings equal
  whenever it finds both equal to a third.
\<close>

theorem sort_stable:
  assumes r: "\<forall>a. localeCompare h a a = 0"
    and e: "\<forall>a b c. localeCompare h a b = 0 \<longrightarrow> localeCompare h a c = 0 \<longrightarrow> localeCompare h b c = 0"
    and eq: "compareItems h (sort' filters) a b = 0"
    and vis: "subseq [a, b] (filteredFiles h files filters)"
  shows "subseq [a, b] files"
proof -
  let ?P = "\<lambda>y. compareItems h (sort' filters) a y = 0"
  have "?P a" using compareItems_refl[OF r] by simp
  then have ab: "filter ?P [a, b] = [a, b]" using eq by simp
  have "subseq [a, b] (filteredFiles h files (filters\<lparr>limit := None\<rparr>))"
    using vis filteredFiles_unlimited_subseq subseq_order.trans by blast
  then have "subseq (filter ?P [a, b]) (filter ?P (filteredFiles h files (filters\<lparr>limit := None\<rparr>)))"
    by (rule subseq_filter)
  then have "subseq [a, b] (filter ?P (filter (\<lambda>f. matchesSearch filters f \<and> matchesDate h filters f) files))"
    using ab class_unlimited[OF r e] by simp
  then show ?thesis
    by (meson subseq_filter_left subseq_order.trans)
qed

text \<open>
  Claim C9. The limit is applied after filtering and sorting: with a limit above zero the
  visible set is the first \<open>limit\<close> items of the filtered and sorted sequence and is no
  longer than the limit; with the limit unset, zero or negative it is the whole sequence.
\<close>

theorem limit_after_sort:
  "(0 < n \<and> limit filters = Some n \<longrightarrow>
      filteredFiles h files filters =
        take (nat n) (sort_by (compareItems h (sort' filters))
          (filter (\<lambda>f. matchesSearch filters f \<and> matchesDate h filters f) files)) \<and>
      int (length (filteredFiles h files filters)) \<le> n) \<and>
   (limit filters = None \<or> (n \<le> 0 \<and> limit filters = Some n) \<longrightarrow>
      filteredFiles h files filters =
        sort_by (compareItems h (sort' filters))
          (filter (\<lambda>f. matchesSearch filters f \<and> matchesDate h filters f) files))"
  by (auto simp: filteredFiles_def)


lemma matchesDate_iff:
  "matchesDate h filters f \<longleftrightarrow>
     (dateStart filters = [] \<or>
        (\<exists>s. newDate h (dateStart filters @ ''T00:00:00'') = Date s \<and> s \<le> lastModified f)) \<and>
     (dateEnd filters = [] \<or>
        (\<exists>e. newDate h (dateEnd filters @ ''T23:59:59'') = Date e \<and> lastModified f \<le> e))"
proof -
  have ge: "date_ge (Date t) d \<longleftrightarrow> (\<exists>s. d = Date s \<and> s \<le> t)" for t d
    by (cases d) auto
  have le: "date_le (Date t) d \<longleftrightarrow> (\<exists>e. d = Date e \<and> t \<le> e)" for t d
    by (cases d) auto
  show ?thesis
    by (simp add: matchesDate_def ge le)
qed

lemma matchesSearch_iff:
  "matchesSearch filters f \<longleftrightarrow>
     (\<exists>a b. toLowerCase (originalName f) = a @ toLowerCase (search filters) @ b)"
  by (simp add: matchesSearch_def includes_iff)

lemma includes_Nil: "includes' s []"
  by (cases s) (simp_all add: startsWith_def)

lemma matchesSearch_empty: "search filters = [] \<Longrightarrow> matchesSearch filters f"
  by (simp add: matchesSearch_def toLowerCase_def includes_Nil)

lemma visible2_iff:
  "f \<in> set (filteredFiles2 h files filters) \<longleftrightarrow>
     f \<in> set files \<and> matchesSearch filters f \<and> matchesSize filters f \<and> matchesDate h filters f"
  by (auto simp: filteredFiles2_def set_sort_by)

lemma visible1_subset:
  "f \<in> set (filteredFiles h files filters) \<Longrightarrow>
     f \<in> set files \<and> matchesSearch filters f \<and> matchesDate h filters f"
  by (auto simp: filteredFiles_def set_sort_by Let_def split: option.splits if_splits dest!: in_set_takeD)

lemma visible1_iff:
  "limit filters = None \<or> (\<exists>n. limit filters = Some n \<and> n \<le> 0) \<Longrightarrow>
   f \<in> set (filteredFiles h files filters) \<longleftrightarrow>
     f \<in> set files \<and> matchesSearch filters f \<and> matchesDate h filters f"
  by (auto simp: filteredFiles_def set_sort_by Let_def split: option.splits if_splits)

section \<open>Finding and updating an element\<close>

lemma findIndex_None: "findIndex P xs = None \<longleftrightarrow> (\<forall>x \<in> set xs. \<not> P x)"
  by (induction xs) auto

lemma findIndex_Some:
  "findIndex P xs = Some i \<longleftrightarrow> i < length xs \<and> P (xs ! i) \<and> (\<forall>j < i. \<not> P (xs ! j))"
proof (induction xs arbitrary: i)
  case Nil
  then show ?case by simp
next
  case (Cons x xs)
  show ?case
  proof (cases "P x")
    case True
    then show ?thesis by (cases i) auto
  next
    case False
    show ?thesis
    proof (cases i)
      case 0
      then show ?thesis using False by auto
    next
      case (Suc k)
      have "(\<forall>j<Suc k. \<not> P ((x # xs) ! j)) \<longleftrightarrow> (\<forall>j<k. \<not> P (xs ! j))"
        using False by (auto simp: less_Suc_eq_0_disj)
      then show ?thesis using False Suc Cons.IH[of k] by auto
    qed
  qed
qed

lemma findIndex_distinct:
  assumes "distinct (map key xs)" and "p < length xs"
  shows "findIndex (\<lambda>y. key y = key (xs ! p)) xs = Some p"
proof -
  have "\<forall>j<p. key (xs ! j) \<noteq> key (xs ! p)"
    using assms by (auto simp: distinct_conv_nth)
  then show ?thesis using assms(2) by (simp add: findIndex_Some)
qed

lemma findIndex_cong_map:
  "map key xs = map key ys \<Longrightarrow> findIndex (\<lambda>y. key y = k) xs = findIndex (\<lambda>y. key y = k) ys"
proof (induction xs arbitrary: ys)
  case Nil
  then show ?case by simp
next
  case (Cons x xs)
  then obtain y ys' where "ys = y # ys'" by (cases ys) auto
  then show ?case using Cons by auto
qed

subsection \<open>Updating the element found by its key\<close>

lemma update_at_twice: "update_at idx g (update_at idx f xs) = update_at idx (g \<circ> f) xs"
proof (cases idx)
  case None
  then show ?thesis by (simp add: update_at_def)
next
  case (Some a)
  then show ?thesis by (cases "a < length xs") (simp_all add: update_at_def list_update_beyond)
qed

lemma length_update_at: "length (update_at idx g xs) = length xs"
  by (cases idx) (simp_all add: update_at_def)

lemma update_found_keys:
  assumes "\<And>u. key (g u) = key u"
  shows "map key (update_at (findIndex (\<lambda>y. key y = k) xs) g xs) = map key xs"
proof (cases "findIndex (\<lambda>y. key y = k) xs")
  case None
  then show ?thesis by (simp add: update_at_def)
next
  case (Some i)
  then have "i < length xs" by (simp add: findIndex_Some)
  then show ?thesis using Some assms
    by (simp add: update_at_def map_update list_update_same_conv)
qed

lemma update_found_other:
  assumes "key (xs ! i) \<noteq> k"
  shows "update_at (findIndex (\<lambda>y. key y = k) xs) g xs ! i = xs ! i"
proof (cases "findIndex (\<lambda>y. key y = k) xs")
  case None
  then show ?thesis by (simp add: update_at_def)
next
  case (Some j)
  then have "key (xs ! j) = k" by (simp add: findIndex_Some)
  then have "j \<noteq> i" using assms by auto
  then show ?thesis using Some by (simp add: update_at_def)
qed

lemma update_found_same:
  assumes "distinct (map key xs)" and "i < length xs" and "key (xs ! i) = k"
  shows "update_at (findIndex (\<lambda>y. key y = k) xs) g xs ! i = g (xs ! i)"
  using findIndex_distinct[OF assms(1,2)] assms(2,3) by (simp add: update_at_def)

section \<open>Pasting names onto the visible set\<close>

lemma trim_Nil: "trim [] = []"
  by (simp add: trim_def)

lemma pasted_lines_nonempty: "n \<in> set (pasted_lines s) \<Longrightarrow> n \<noteq> [] \<and> trim n \<noteq> []"
  by (auto simp: pasted_lines_def trim_Nil)


text \<open>
  Claim C5. The pasted text is cut into lines and the lines that are empty after trimming
  are dropped. An item of the collection that stands at position \<open>p\<close> of the visible set
  (found by its identifier) gets the trimmed \<open>p\<close>-th name as its custom base name when
  there is a \<open>p\<close>-th name, and is left as it is when the names run out before \<open>p\<close>; an
  item whose identifier is not in the visible set is left as it is. Names beyond the
  length of the visible set are never read.
\<close>

theorem applyPastedNames_positional:
  assumes d: "distinct (map id' visible)" and i: "i < length prev"
  shows "length (applyPastedNames pastedNames visible prev) = length prev \<and>
         (\<forall>p. p < length visible \<and> id' (visible ! p) = id' (prev ! i) \<longrightarrow>
              applyPastedNames pastedNames visible prev ! i =
                (if p < length (pasted_lines pastedNames)
                 then (prev ! i)\<lparr>customBaseName := trim (pasted_lines pastedNames ! p)\<rparr>
                 else prev ! i)) \<and>
         (id' (prev ! i) \<notin> id' ` set visible \<longrightarrow>
              applyPastedNames pastedNames visible prev ! i = prev ! i)"
proof -
  let ?names = "pasted_lines pastedNames"
  have len: "length (applyPastedNames pastedNames visible prev) = length prev"
    by (simp add: applyPastedNames_def Let_def)
  have pos: "applyPastedNames pastedNames visible prev ! i =
                (if p < length ?names
                 then (prev ! i)\<lparr>customBaseName := trim (?names ! p)\<rparr>
                 else prev ! i)"
    if "p < length visible" and "id' (visible ! p) = id' (prev ! i)" for p
  proof -
    have "findIndex (\<lambda>ff. id' ff = id' (prev ! i)) visible = Some p"
      using findIndex_distinct[OF d that(1)] that(2) by simp
    moreover have "p < length ?names \<Longrightarrow> ?names ! p \<noteq> []"
      using pasted_lines_nonempty nth_mem by blast
    ultimately show ?thesis using i by (auto simp: applyPastedNames_def Let_def)
  qed
  have out: "applyPastedNames pastedNames visible prev ! i = prev ! i"
    if "id' (prev ! i) \<notin> id' ` set visible"
  proof -
    have "findIndex (\<lambda>ff. id' ff = id' (prev ! i)) visible = None"
      using that by (force simp: findIndex_None image_iff)
    then show ?thesis using i by (simp add: applyPastedNames_def Let_def)
  qed
  show ?thesis using len pos out by blast
qed


section \<open>The batch loop\<close>

lemma fold_keys:
  assumes step_eq: "\<And>f st. updatedFiles (step f st) =
      update_at (findIndex (\<lambda>uf. id' uf = id' f) (updatedFiles st)) (G f st) (updatedFiles st)"
    and G_id: "\<And>f st u. id' (G f st u) = id' u"
  shows "map id' (updatedFiles (fold step fs st)) = map id' (updatedFiles st)"
proof (induction fs arbitrary: st)
  case Nil
  then show ?case by simp
next
  case (Cons f fs)
  have "map id' (updatedFiles (step f st)) = map id' (updatedFiles st)"
    unfolding step_eq by (rule update_found_keys) (rule G_id)
  then show ?case using Cons.IH[of "step f st"] by simp
qed


lemma fold_other:
  assumes step_eq: "\<And>f st. updatedFiles (step f st) =
      update_at (findIndex (\<lambda>uf. id' uf = id' f) (updatedFiles st)) (G f st) (updatedFiles st)"
    and G_id: "\<And>f st u. id' (G f st u) = id' u"
    and i: "i < length (updatedFiles st)"
    and out: "id' (updatedFiles st ! i) \<notin> id' ` set fs"
  shows "updatedFiles (fold step fs st) ! i = updatedFiles st ! i"
  using i out
proof (induction fs arbitrary: st)
  case Nil
  then show ?case by simp
next
  case (Cons f fs)
  have ne: "id' (updatedFiles st ! i) \<noteq> id' f" using Cons.prems(2) by auto
  have same: "updatedFiles (step f st) ! i = updatedFiles st ! i"
    unfolding step_eq by (rule update_found_other) (rule ne)
  have len: "i < length (updatedFiles (step f st))"
    using Cons.prems(1) by (simp add: step_eq length_update_at)
  have "id' (updatedFiles (step f st) ! i) \<notin> id' ` set fs"
    using Cons.prems(2) same by auto
  then show ?case using Cons.IH[OF len] same by simp
qed

lemma fold_same:
  assumes step_eq: "\<And>f st. updatedFiles (step f st) =
      update_at (findIndex (\<lambda>uf. id' uf = id' f) (updatedFiles st)) (G f st) (updatedFiles st)"
    and G_id: "\<And>f st u. id' (G f st u) = id' u"
    and df: "distinct (map id' (updatedFiles st))"
    and dv: "distinct (map id' fs)"
    and k: "k < length fs"
    and i: "i < length (updatedFiles st)"
    and eq: "id' (updatedFiles st ! i) = id' (fs ! k)"
  shows "updatedFiles (fold step fs st) ! i =
           G (fs ! k) (fold step (take k fs) st) (updatedFiles st ! i)"
proof -
  let ?stk = "fold step (take k fs) st"
  have split: "fs = take k fs @ fs ! k # drop (Suc k) fs"
    using k by (simp add: id_take_nth_drop)
  have dsplit: "distinct (map id' (take k fs @ fs ! k # drop (Suc k) fs))"
    using dv split by simp
  have before: "id' (fs ! k) \<notin> id' ` set (take k fs)"
    and after: "id' (fs ! k) \<notin> id' ` set (drop (Suc k) fs)"
    using dsplit by auto
  have keys_k: "map id' (updatedFiles ?stk) = map id' (updatedFiles st)"
    by (rule fold_keys[of step G, OF step_eq G_id])
  have len_k: "i < length (updatedFiles ?stk)"
    using i keys_k by (metis length_map)
  have item_k: "updatedFiles ?stk ! i = updatedFiles st ! i"
    by (rule fold_other[of step G, OF step_eq G_id i]) (use eq before in simp)
  have dk: "distinct (map id' (updatedFiles ?stk))" using df keys_k by simp
  let ?st1 = "step (fs ! k) ?stk"
  have item_1: "updatedFiles ?st1 ! i = G (fs ! k) ?stk (updatedFiles st ! i)"
    unfolding step_eq using update_found_same[OF dk len_k, of "id' (fs ! k)" "G (fs ! k) ?stk"]
    by (simp add: item_k eq)
  have len_1: "i < length (updatedFiles ?st1)"
    using len_k by (simp add: step_eq length_update_at)
  have "updatedFiles (fold step (drop (Suc k) fs) ?st1) ! i = updatedFiles ?st1 ! i"
    by (rule fold_other[of step G, OF step_eq G_id len_1]) (use item_1 G_id eq after in simp)
  moreover have "fold step fs st = fold step (drop (Suc k) fs) ?st1"
    by (subst split) simp
  ultimately show ?thesis using item_1 by simp
qed


subsection \<open>The first component's loop\<close>

lemma finished_id: "id' (finished r u) = id' u"
  by (cases r) (simp_all add: finished_def)

lemma batch_step_files:
  "updatedFiles (batch_step io g f st) =
     update_at (findIndex (\<lambda>uf. id' uf = id' f) (updatedFiles st))
       (finished (fst (copy_item io g f (destDir st)))) (updatedFiles st)"
proof -
  have a: "(\<lambda>u. u\<lparr>status := Success\<rparr>) \<circ> (\<lambda>u. u\<lparr>status := Processing\<rparr>) = finished None"
    by (simp add: fun_eq_iff finished_def)
  have b: "(\<lambda>u. u\<lparr>status := Error, errorMessage := Some msg\<rparr>) \<circ> (\<lambda>u. u\<lparr>status := Processing\<rparr>) =
           finished (Some msg)" for msg
    by (simp add: fun_eq_iff finished_def)
  show ?thesis
    by (cases "fst (copy_item io g f (destDir st))")
       (simp_all add: batch_step_def Let_def update_at_twice a b)
qed

lemma write_file_thrown:
  "fst (write_file io nm b dir) = fst (write_file io nm b dir')"
  by (simp add: write_file_def Let_def split: option.splits)

lemma copy_item_thrown:
  "fst (copy_item io g f dir) = fst (copy_item io g f dir')"
  using write_file_thrown by (simp add: copy_item_def Let_def split: sum.splits)

lemma batch_step_log:
  "setFiles_log (batch_step io g f st) =
     setFiles_log st @
       [update_at (findIndex (\<lambda>uf. id' uf = id' f) (updatedFiles st))
          (\<lambda>u. u\<lparr>status := Processing\<rparr>) (updatedFiles st),
        updatedFiles (batch_step io g f st)]"
  by (simp add: batch_step_def Let_def)




lemma write_file_first_fault: "fst (write_file io nm b dir) = first_fault io nm"
  by (simp add: write_file_def first_fault_def Let_def split: option.splits)

lemma copy_item_failure: "fst (copy_item io g f dir) = failure io g f"
  by (simp add: copy_item_def failure_def Let_def write_file_first_fault split: sum.splits)

lemma batch_step_files':
  "updatedFiles (batch_step io g f st) =
     update_at (findIndex (\<lambda>uf. id' uf = id' f) (updatedFiles st))
       (finished (failure io g f)) (updatedFiles st)"
  by (simp add: batch_step_files copy_item_failure)

lemma executeBatch_Some:
  "executeBatch io g files visible (Some dir) = Some st \<longleftrightarrow>
     st = fold (batch_step io g) visible \<lparr>updatedFiles = files, destDir = dir, setFiles_log = []\<rparr>"
  by (auto simp: executeBatch_def)

lemma finished_status:
  "terminal (status (finished r u)) \<and>
   (\<forall>msg. r = Some msg \<longrightarrow> status (finished r u) = Error \<and> errorMessage (finished r u) = Some msg) \<and>
   (r = None \<longrightarrow> status (finished r u) = Success)"
  by (cases r) (simp_all add: finished_def terminal_def)


lemma batch_visible_item:
  assumes df: "distinct (map id' files)" and dv: "distinct (map id' visible)"
    and run: "executeBatch io g files visible (Some dir) = Some st"
    and k: "k < length visible" and i: "i < length files"
    and eq: "id' (files ! i) = id' (visible ! k)"
  shows "updatedFiles st ! i = finished (failure io g (visible ! k)) (files ! i)"
proof -
  let ?st0 = "\<lparr>updatedFiles = files, destDir = dir, setFiles_log = []\<rparr>"
  have st: "st = fold (batch_step io g) visible ?st0"
    using run by (simp add: executeBatch_Some)
  have "updatedFiles (fold (batch_step io g) visible ?st0) ! i =
          finished (failure io g (visible ! k)) (updatedFiles ?st0 ! i)"
    by (rule fold_same[of "batch_step io g" "\<lambda>f st. finished (failure io g f)"])
       (use df dv k i eq in \<open>simp_all add: batch_step_files' finished_id\<close>)
  then show ?thesis using st by simp
qed

lemma batch_outside_item:
  assumes run: "executeBatch io g files visible (Some dir) = Some st"
    and i: "i < length files" and out: "id' (files ! i) \<notin> id' ` set visible"
  shows "updatedFiles st ! i = files ! i"
proof -
  let ?st0 = "\<lparr>updatedFiles = files, destDir = dir, setFiles_log = []\<rparr>"
  have st: "st = fold (batch_step io g) visible ?st0"
    using run by (simp add: executeBatch_Some)
  have "updatedFiles (fold (batch_step io g) visible ?st0) ! i = updatedFiles ?st0 ! i"
    by (rule fold_other[of "batch_step io g" "\<lambda>f st. finished (failure io g f)"])
       (use i out in \<open>simp_all add: batch_step_files' finished_id\<close>)
  then show ?thesis using st by simp
qed

text \<open>
  Claim C3. A batch over a visible set runs to its end whatever fails, and each item's
  end depends on its own file alone: the entry of the collection for a visible item ends
  as the item it was, with status error and the message of its own read or write failure
  when there is one, and with status success when there is none. Whatever happens to one
  item, every other visible item reaches its own terminal state.
\<close>

theorem failure_isolated:
  assumes df: "distinct (map id' files)" and dv: "distinct (map id' visible)"
    and k: "k < length visible" and i: "i < length files"
    and eq: "id' (files ! i) = id' (visible ! k)"
  shows "\<exists>st. executeBatch io g files visible (Some dir) = Some st \<and>
           updatedFiles st ! i = finished (failure io g (visible ! k)) (files ! i) \<and>
           terminal (status (updatedFiles st ! i)) \<and>
           (\<forall>msg. failure io g (visible ! k) = Some msg \<longrightarrow>
              status (updatedFiles st ! i) = Error \<and>
              errorMessage (updatedFiles st ! i) = Some msg) \<and>
           (failure io g (visible ! k) = None \<longrightarrow> status (updatedFiles st ! i) = Success)"
proof -
  obtain st where run: "executeBatch io g files visible (Some dir) = Some st"
    by (simp add: executeBatch_def)
  have item: "updatedFiles st ! i = finished (failure io g (visible ! k)) (files ! i)"
    by (rule batch_visible_item[OF df dv run k i eq])
  have rest: "terminal (status (updatedFiles st ! i)) \<and>
        (\<forall>msg. failure io g (visible ! k) = Some msg \<longrightarrow>
           status (updatedFiles st ! i) = Error \<and> errorMessage (updatedFiles st ! i) = Some msg) \<and>
        (failure io g (visible ! k) = None \<longrightarrow> status (updatedFiles st ! i) = Success)"
    unfolding item using finished_status by blast
  show ?thesis
  proof (intro exI[of _ st] conjI)
    show "executeBatch io g files visible (Some dir) = Some st" by (rule run)
    show "updatedFiles st ! i = finished (failure io g (visible ! k)) (files ! i)" by (rule item)
  qed (use rest in blast)+
qed



section \<open>Membership in the visible set\<close>

text \<open>
  Claim C4, as the code has it. In the component whose filter has the size clause (lines
  628-663) an item is in the visible set exactly when it is in the collection and
  satisfies the search, size and date clauses. In the component with the limit (lines
  132-159) the filter has no size clause: every visible item is in the collection and
  satisfies the search and date clauses, and with the limit unset, zero or negative the
  items that do are exactly the visible ones. An empty search text, a minimum size of
  zero or less for a file of non-negative size, and two empty dates constrain nothing.
\<close>

theorem visible_clauses:
  "(f \<in> set (filteredFiles2 h files filters) \<longleftrightarrow>
      f \<in> set files \<and> search_clause filters f \<and> size_clause filters f \<and> date_clause h filters f) \<and>
   (f \<in> set (filteredFiles h files filters) \<longrightarrow>
      f \<in> set files \<and> search_clause filters f \<and> date_clause h filters f) \<and>
   (limit filters = None \<or> (\<exists>n. limit filters = Some n \<and> n \<le> 0) \<longrightarrow>
      (f \<in> set (filteredFiles h files filters) \<longleftrightarrow>
         f \<in> set files \<and> search_clause filters f \<and> date_clause h filters f)) \<and>
   (search filters = [] \<longrightarrow> search_clause filters f) \<and>
   (minSize filters \<le> 0 \<and> 0 \<le> size' f \<longrightarrow> size_clause filters f) \<and>
   (dateStart filters = [] \<and> dateEnd filters = [] \<longrightarrow> date_clause h filters f)"
proof -
  have s: "matchesSearch filters f = search_clause filters f"
    by (simp add: matchesSearch_iff search_clause_def)
  have z: "matchesSize filters f = size_clause filters f"
    by (simp add: matchesSize_def size_clause_def)
  have d: "matchesDate h filters f = date_clause h filters f"
    by (simp add: matchesDate_iff date_clause_def)
  have c1: "f \<in> set (filteredFiles2 h files filters) \<longleftrightarrow>
      f \<in> set files \<and> search_clause filters f \<and> size_clause filters f \<and> date_clause h filters f"
    using visible2_iff[of f h files filters] by (simp add: s z d)
  have c2: "f \<in> set (filteredFiles h files filters) \<Longrightarrow>
      f \<in> set files \<and> search_clause filters f \<and> date_clause h filters f"
    using visible1_subset[of f h files filters] by (simp add: s d)
  have c3: "limit filters = None \<or> (\<exists>n. limit filters = Some n \<and> n \<le> 0) \<Longrightarrow>
      (f \<in> set (filteredFiles h files filters) \<longleftrightarrow>
         f \<in> set files \<and> search_clause filters f \<and> date_clause h filters f)"
    using visible1_iff[of filters f h files] by (simp add: s d)
  have c4: "search filters = [] \<Longrightarrow> search_clause filters f"
    using matchesSearch_empty[of filters f] by (simp add: s)
  have c5: "minSize filters \<le> 0 \<and> 0 \<le> size' f \<Longrightarrow> size_clause filters f"
    by (auto simp: size_clause_def intro: order_trans[of _ 0])
  have c6: "dateStart filters = [] \<and> dateEnd filters = [] \<Longrightarrow> date_clause h filters f"
    by (simp add: date_clause_def)
  show ?thesis using c1 c2 c3 c4 c5 c6 by blast
qed


section \<open>Leaving a terminal state\<close>

lemma applyPastedNames_status:
  "map status (applyPastedNames pasted visible prev) = map status prev"
  by (simp add: applyPastedNames_def Let_def split: option.splits)

lemma edit_field_status: "map status (edit_field fld fid v prev) = map status prev"
  by (cases fld) (simp_all add: edit_field_def)


text \<open>
  Claim C6, as the code has it. Within one batch run an item that has reached its terminal
  state keeps it: its entry after the whole run is its entry after any longer prefix of
  the run than the one that ends with it. A batch run leaves the entries outside its
  visible set as they are, and neither applying pasted names nor editing a field changes
  any status. A scan makes every item pending. A later batch run over the item is not
  among these: it processes the item again.
\<close>

theorem terminal_kept:
  assumes df: "distinct (map id' files)" and dv: "distinct (map id' visible)"
    and run: "executeBatch io g files visible (Some dir) = Some st"
    and k: "k < length visible" and j: "k < j" "j \<le> length visible"
    and runj: "executeBatch io g files (take j visible) (Some dir) = Some stj"
    and i: "i < length files" and eq: "id' (files ! i) = id' (visible ! k)"
  shows "terminal (status (updatedFiles stj ! i)) \<and>
         updatedFiles st ! i = updatedFiles stj ! i \<and>
         (\<forall>m < length files. id' (files ! m) \<notin> id' ` set visible \<longrightarrow>
            updatedFiles st ! m = files ! m) \<and>
         map status (applyPastedNames pasted visible' files) = map status files \<and>
         map status (edit_field fld fid v files) = map status files \<and>
         (\<forall>n entries newFiles. scan_loop randomUUID n entries = Inr newFiles \<longrightarrow>
            (\<forall>f \<in> set newFiles. status f = Pending))"
proof -
  have kj: "k < length (take j visible)" using k j by simp
  have dj: "distinct (map id' (take j visible))"
    using dv by (simp add: distinct_take take_map[symmetric])
  have eqj: "id' (files ! i) = id' (take j visible ! k)" using eq j by simp
  have a: "updatedFiles stj ! i = finished (failure io g (visible ! k)) (files ! i)"
    using batch_visible_item[OF df dj runj kj i eqj] j by simp
  have b: "updatedFiles st ! i = finished (failure io g (visible ! k)) (files ! i)"
    by (rule batch_visible_item[OF df dv run k i eq])
  have t: "terminal (status (updatedFiles stj ! i))"
    unfolding a using finished_status by blast
  have fr: "\<forall>m < length files. id' (files ! m) \<notin> id' ` set visible \<longrightarrow>
            updatedFiles st ! m = files ! m"
    using batch_outside_item[OF run] by blast
  have sc: "\<forall>n entries newFiles. scan_loop randomUUID n entries = Inr newFiles \<longrightarrow>
            (\<forall>f \<in> set newFiles. status f = Pending)"
    using scan_loop_items by blast
  show ?thesis using t a b fr sc applyPastedNames_status edit_field_status by simp
qed



section \<open>The second component's loop\<close>

lemma finished2_id: "id' (finished2 r u) = id' u"
  by (cases r) (simp_all add: finished2_def)

lemma finished2_name:
  "getFinalName2 g (finished2 r u) = getFinalName2 g u \<and> handle (finished2 r u) = handle u"
  by (cases r) (simp_all add: finished2_def getFinalName2_def)

lemma finished2_Success: "status (finished2 r u) = Success \<longleftrightarrow> r = Written"
  by (cases r) (simp_all add: finished2_def)

lemma batch_step2_files:
  "updatedFiles (batch_step2 io g f st) =
     update_at (findIndex (\<lambda>uf. id' uf = id' f) (updatedFiles st))
       (finished2 (fst (copy_item2 io g f (destDir st)))) (updatedFiles st)"
proof -
  have a: "(\<lambda>u. u\<lparr>status := Success\<rparr>) \<circ> (\<lambda>u. u\<lparr>status := Processing\<rparr>) = finished2 Written"
    by (simp add: fun_eq_iff finished2_def)
  have b: "(\<lambda>u. u\<lparr>status := Error, errorMessage := Some msg\<rparr>) \<circ> (\<lambda>u. u\<lparr>status := Processing\<rparr>) =
           finished2 (Thrown msg)" for msg
    by (simp add: fun_eq_iff finished2_def)
  have c: "(\<lambda>u. u\<lparr>status := Skipped, errorMessage := Some ''Ya existe''\<rparr>) \<circ>
             (\<lambda>u. u\<lparr>status := Processing\<rparr>) = finished2 Exists"
    by (simp add: fun_eq_iff finished2_def)
  show ?thesis
    by (cases "fst (copy_item2 io g f (destDir st))")
       (simp_all add: batch_step2_def Let_def update_at_twice a b c)
qed

lemma batch_step2_dest: "destDir (batch_step2 io g f st) = snd (copy_item2 io g f (destDir st))"
  by (simp add: batch_step2_def Let_def)

lemma write_file_other: "n \<noteq> nm \<Longrightarrow> snd (write_file io nm b dir) n = dir n"
  by (simp add: write_file_def Let_def split: option.splits)

lemma write_file_done: "fst (write_file io nm b dir) = None \<Longrightarrow> snd (write_file io nm b dir) nm = Some b"
  by (simp add: write_file_def Let_def split: option.splits)

lemma copy_item2_keep:
  assumes "\<not> overwrite g" and "dir n \<noteq> None"
  shows "snd (copy_item2 io g f dir) n = dir n"
proof (cases "getFile io (handle f)")
  case (Inl msg)
  then show ?thesis by (simp add: copy_item2_def)
next
  case (Inr b)
  show ?thesis
  proof (cases "dir (getFinalName2 g f) \<noteq> None")
    case True
    then show ?thesis using Inr assms by (simp add: copy_item2_def)
  next
    case False
    then have "n \<noteq> getFinalName2 g f" using assms(2) by auto
    then have "snd (write_file io (getFinalName2 g f) b dir) n = dir n"
      by (rule write_file_other)
    then show ?thesis using Inr False
      by (simp add: copy_item2_def Let_def split: option.splits)
  qed
qed

lemma copy_item2_exists:
  assumes "\<not> overwrite g" and "dir (getFinalName2 g f) \<noteq> None" and "getFile io (handle f) = Inr b"
  shows "copy_item2 io g f dir = (Exists, dir)"
  using assms by (simp add: copy_item2_def)

lemma copy_item2_written:
  assumes "fst (copy_item2 io g f dir) = Written"
  shows "snd (copy_item2 io g f dir) (getFinalName2 g f) \<noteq> None"
proof (cases "getFile io (handle f)")
  case (Inl msg)
  then show ?thesis using assms by (simp add: copy_item2_def)
next
  case (Inr b)
  show ?thesis
  proof (cases "dir (getFinalName2 g f) \<noteq> None \<and> \<not> overwrite g")
    case True
    then show ?thesis using Inr assms by (simp add: copy_item2_def)
  next
    case False
    then have w: "fst (write_file io (getFinalName2 g f) b dir) = None"
      using Inr assms by (auto simp: copy_item2_def Let_def split: option.splits if_splits)
    then show ?thesis using Inr False write_file_done[OF w]
      by (auto simp: copy_item2_def Let_def)
  qed
qed

lemma fold2_keep:
  assumes "\<not> overwrite g" and "destDir st n \<noteq> None"
  shows "destDir (fold (batch_step2 io g) fs st) n = destDir st n"
  using assms(2)
proof (induction fs arbitrary: st)
  case Nil
  then show ?case by simp
next
  case (Cons f fs)
  have "destDir (batch_step2 io g f st) n = destDir st n"
    using copy_item2_keep[where dir = "destDir st" and n = n, OF assms(1) Cons.prems]
    by (simp add: batch_step2_dest)
  then show ?case using Cons.IH[of "batch_step2 io g f st"] Cons.prems by simp
qed

lemma executeBatch2_Some:
  "executeBatch2 io g files visible (Some dir) = Some st \<longleftrightarrow>
     st = fold (batch_step2 io g) visible \<lparr>updatedFiles = files, destDir = dir, setFiles_log = []\<rparr>"
  by (auto simp: executeBatch2_def)

lemma batch2_visible_item:
  assumes df: "distinct (map id' files)" and dv: "distinct (map id' visible)"
    and run: "executeBatch2 io g files visible (Some dir) = Some st"
    and k: "k < length visible" and i: "i < length files"
    and eq: "id' (files ! i) = id' (visible ! k)"
  shows "updatedFiles st ! i =
           finished2 (fst (copy_item2 io g (visible ! k)
             (destDir (fold (batch_step2 io g) (take k visible)
                \<lparr>updatedFiles = files, destDir = dir, setFiles_log = []\<rparr>)))) (files ! i)"
proof -
  let ?st0 = "\<lparr>updatedFiles = files, destDir = dir, setFiles_log = []\<rparr>"
  have st: "st = fold (batch_step2 io g) visible ?st0"
    using run by (simp add: executeBatch2_Some)
  have "updatedFiles (fold (batch_step2 io g) visible ?st0) ! i =
          finished2 (fst (copy_item2 io g (visible ! k)
             (destDir (fold (batch_step2 io g) (take k visible) ?st0)))) (updatedFiles ?st0 ! i)"
    by (rule fold_same[of "batch_step2 io g" "\<lambda>f st. finished2 (fst (copy_item2 io g f (destDir st)))"])
       (use df dv k i eq in \<open>simp_all add: batch_step2_files finished2_id\<close>)
  then show ?thesis using st by simp
qed

lemma batch2_skips_existing:
  assumes ow: "\<not> overwrite g"
    and df: "distinct (map id' files)" and dv: "distinct (map id' visible)"
    and run: "executeBatch2 io g files visible (Some dir) = Some st"
    and k: "k < length visible" and i: "i < length files"
    and eq: "id' (files ! i) = id' (visible ! k)"
    and ex: "dir (getFinalName2 g (visible ! k)) \<noteq> None"
    and rd: "getFile io (handle (visible ! k)) = Inr b"
  shows "updatedFiles st ! i = (files ! i)\<lparr>status := Skipped, errorMessage := Some ''Ya existe''\<rparr>"
proof -
  let ?st0 = "\<lparr>updatedFiles = files, destDir = dir, setFiles_log = []\<rparr>"
  let ?dk = "destDir (fold (batch_step2 io g) (take k visible) ?st0)"
  have "?dk (getFinalName2 g (visible ! k)) = dir (getFinalName2 g (visible ! k))"
    using fold2_keep[OF ow, of ?st0] ex by simp
  then have "?dk (getFinalName2 g (visible ! k)) \<noteq> None" using ex by simp
  then have "fst (copy_item2 io g (visible ! k) ?dk) = Exists"
    using copy_item2_exists[OF ow _ rd] by simp
  then show ?thesis
    using batch2_visible_item[OF df dv run k i eq] by (simp add: finished2_def)
qed

lemma batch2_success_leaves_file:
  assumes ow: "\<not> overwrite g"
    and df: "distinct (map id' files)" and dv: "distinct (map id' visible)"
    and run: "executeBatch2 io g files visible (Some dir) = Some st"
    and k: "k < length visible" and i: "i < length files"
    and eq: "id' (files ! i) = id' (visible ! k)"
    and ok: "status (updatedFiles st ! i) = Success"
  shows "destDir st (getFinalName2 g (visible ! k)) \<noteq> None"
proof -
  let ?st0 = "\<lparr>updatedFiles = files, destDir = dir, setFiles_log = []\<rparr>"
  let ?stk = "fold (batch_step2 io g) (take k visible) ?st0"
  let ?st1 = "batch_step2 io g (visible ! k) ?stk"
  have "fst (copy_item2 io g (visible ! k) (destDir ?stk)) = Written"
    using batch2_visible_item[OF df dv run k i eq] ok by (simp add: finished2_Success)
  then have w: "destDir ?st1 (getFinalName2 g (visible ! k)) \<noteq> None"
    using copy_item2_written by (simp add: batch_step2_dest)
  have split: "visible = take k visible @ visible ! k # drop (Suc k) visible"
    using k by (simp add: id_take_nth_drop)
  have "fold (batch_step2 io g) visible ?st0 = fold (batch_step2 io g) (drop (Suc k) visible) ?st1"
    by (subst split) simp
  then have "st = fold (batch_step2 io g) (drop (Suc k) visible) ?st1"
    using run by (simp add: executeBatch2_Some)
  then show ?thesis using fold2_keep[OF ow w] w by simp
qed



text \<open>
  Claim C2, as the code has it. In the batch executor of the second component (lines
  686-724), with overwriting disabled: a visible item whose source can be read and whose
  destination name exists when its turn comes, whether the file was there when the batch
  started or was made earlier in the same batch, ends with status skipped and the
  message \<open>Ya existe\<close>, and its turn leaves the destination as it was; a file that is in
  the destination at some point of the batch is not changed later in it. Consequently,
  in a second run over the same collection and destination, every item that the first
  run left with status success and whose source can be read is skipped with that
  message, and the files of the destination stay as the first run left them.
\<close>

theorem collision_skips:
  assumes ow: "\<not> overwrite g"
    and df: "distinct (map id' files)"
    and dv1: "distinct (map id' vis1)" and dv2: "distinct (map id' vis2)"
    and run1: "executeBatch2 io1 g files vis1 (Some dir) = Some st1"
    and run2: "executeBatch2 io2 g (updatedFiles st1) vis2 (Some (destDir st1)) = Some st2"
    and i: "i < length files"
    and k1: "k1 < length vis1" "vis1 ! k1 = files ! i"
    and k2: "k2 < length vis2" "vis2 ! k2 = updatedFiles st1 ! i"
    and turn: "executeBatch2 io1 g files (take k1 vis1) (Some dir) = Some stk"
    and fin: "executeBatch2 io1 g files (take (Suc k1) vis1) (Some dir) = Some stk'"
  shows "(\<forall>b. destDir stk (getFinalName2 g (files ! i)) \<noteq> None \<and>
              getFile io1 (handle (files ! i)) = Inr b \<longrightarrow>
            updatedFiles st1 ! i =
              (files ! i)\<lparr>status := Skipped, errorMessage := Some ''Ya existe''\<rparr> \<and>
            destDir stk' = destDir stk) \<and>
         (\<forall>n. dir n \<noteq> None \<longrightarrow> destDir stk n = dir n) \<and>
         (\<forall>n. destDir stk n \<noteq> None \<longrightarrow> destDir st1 n = destDir stk n) \<and>
         (\<forall>b. dir (getFinalName2 g (files ! i)) \<noteq> None \<and> getFile io1 (handle (files ! i)) = Inr b \<longrightarrow>
            updatedFiles st1 ! i =
              (files ! i)\<lparr>status := Skipped, errorMessage := Some ''Ya existe''\<rparr>) \<and>
         (\<forall>n. dir n \<noteq> None \<longrightarrow> destDir st1 n = dir n) \<and>
         (\<forall>b. status (updatedFiles st1 ! i) = Success \<and> getFile io2 (handle (files ! i)) = Inr b \<longrightarrow>
            updatedFiles st2 ! i =
              (updatedFiles st1 ! i)\<lparr>status := Skipped, errorMessage := Some ''Ya existe''\<rparr>) \<and>
         (\<forall>n. destDir st1 n \<noteq> None \<longrightarrow> destDir st2 n = destDir st1 n)"
proof -
  let ?st0 = "\<lparr>updatedFiles = files, destDir = dir, setFiles_log = []\<rparr>"
  let ?G = "\<lambda>f st. finished2 (fst (copy_item2 io1 g f (destDir st)))"
  let ?step = "batch_step2 io1 g"
  have st1: "st1 = fold ?step vis1 ?st0"
    using run1 by (simp add: executeBatch2_Some)
  have st2: "st2 = fold (batch_step2 io2 g) vis2
               \<lparr>updatedFiles = updatedFiles st1, destDir = destDir st1, setFiles_log = []\<rparr>"
    using run2 by (simp add: executeBatch2_Some)
  have stk: "stk = fold ?step (take k1 vis1) ?st0"
    using turn by (simp add: executeBatch2_Some)
  have tk: "take (Suc k1) vis1 = take k1 vis1 @ [vis1 ! k1]"
    using k1(1) by (simp add: take_Suc_conv_app_nth)
  have stk': "stk' = ?step (vis1 ! k1) stk"
    using fin unfolding executeBatch2_Some tk stk by simp
  have rest: "st1 = fold ?step (drop k1 vis1) stk"
  proof -
    have "fold ?step (take k1 vis1 @ drop k1 vis1) ?st0 = fold ?step (drop k1 vis1) stk"
      unfolding stk fold_append by simp
    then show ?thesis using st1 by simp
  qed
  have eq1: "id' (files ! i) = id' (vis1 ! k1)" using k1 by simp
  have item1: "updatedFiles st1 ! i =
      finished2 (fst (copy_item2 io1 g (vis1 ! k1) (destDir stk))) (files ! i)"
    unfolding stk by (rule batch2_visible_item[OF df dv1 run1 k1(1) i eq1])
  have a: "updatedFiles st1 ! i =
              (files ! i)\<lparr>status := Skipped, errorMessage := Some ''Ya existe''\<rparr> \<and>
           destDir stk' = destDir stk"
    if ex: "destDir stk (getFinalName2 g (files ! i)) \<noteq> None"
      and rd: "getFile io1 (handle (files ! i)) = Inr b" for b
  proof -
    have c: "copy_item2 io1 g (vis1 ! k1) (destDir stk) = (Exists, destDir stk)"
      using copy_item2_exists[OF ow, of "destDir stk" "vis1 ! k1" io1 b] ex rd k1(2) by simp
    show ?thesis using item1 c by (simp add: finished2_def stk' batch_step2_dest)
  qed
  have b: "destDir stk n = dir n" if "dir n \<noteq> None" for n
    unfolding stk using fold2_keep[OF ow, of ?st0 n io1 "take k1 vis1"] that by simp
  have c: "destDir st1 n = destDir stk n" if "destDir stk n \<noteq> None" for n
    unfolding rest using fold2_keep[OF ow that] by simp
  have p2: "destDir st1 n = dir n" if "dir n \<noteq> None" for n
    using b[OF that] c[of n] that by simp
  have p1: "updatedFiles st1 ! i = (files ! i)\<lparr>status := Skipped, errorMessage := Some ''Ya existe''\<rparr>"
    if "dir (getFinalName2 g (files ! i)) \<noteq> None" and "getFile io1 (handle (files ! i)) = Inr b" for b
    using a[of b] b[OF that(1)] that by simp
  have keys: "map id' (updatedFiles st1) = map id' files"
    unfolding st1 using fold_keys[of ?step ?G vis1 ?st0]
    by (simp add: batch_step2_files finished2_id)
  have d1: "distinct (map id' (updatedFiles st1))" using keys df by simp
  have i1: "i < length (updatedFiles st1)" using keys i by (metis length_map)
  have nm: "getFinalName2 g (updatedFiles st1 ! i) = getFinalName2 g (files ! i)"
    and hd: "handle (updatedFiles st1 ! i) = handle (files ! i)"
    unfolding item1 using finished2_name by simp_all
  have p3: "updatedFiles st2 ! i =
              (updatedFiles st1 ! i)\<lparr>status := Skipped, errorMessage := Some ''Ya existe''\<rparr>"
    if ok: "status (updatedFiles st1 ! i) = Success" and rd: "getFile io2 (handle (files ! i)) = Inr b" for b
  proof -
    have "destDir st1 (getFinalName2 g (vis1 ! k1)) \<noteq> None"
      by (rule batch2_success_leaves_file[OF ow df dv1 run1 k1(1) i eq1 ok])
    then have ex: "destDir st1 (getFinalName2 g (vis2 ! k2)) \<noteq> None"
      using k1(2) k2(2) nm by simp
    have rd2: "getFile io2 (handle (vis2 ! k2)) = Inr b" using rd k2(2) hd by simp
    have eq2: "id' (updatedFiles st1 ! i) = id' (vis2 ! k2)" using k2(2) by simp
    show ?thesis
      by (rule batch2_skips_existing[OF ow d1 dv2 run2 k2(1) i1 eq2 ex rd2])
  qed
  have p4: "destDir st2 n = destDir st1 n" if "destDir st1 n \<noteq> None" for n
    unfolding st2
    using fold2_keep[OF ow, of "\<lparr>updatedFiles = updatedFiles st1, destDir = destDir st1, setFiles_log = []\<rparr>" n io2 vis2]
      that by simp
  show ?thesis using a b c p1 p2 p3 p4 by blast
qed

section \<open>Worked examples\<close>

lemma code_compare_refl: "code_compare a a = 0"
  by (induction a) simp_all

lemma code_compare_eq: "code_compare a b = 0 \<Longrightarrow> a = b"
proof (induction a b rule: code_compare.induct)
  case (4 x xs y ys)
  then have "(of_char x :: nat) = of_char y" and "code_compare xs ys = 0"
    by (auto split: if_splits)
  then show ?case using 4 by auto
qed simp_all

lemma ex_host_refl: "\<forall>a. localeCompare ex_host a a = 0"
  by (simp add: ex_host_def code_compare_refl)

lemma ex_host_eucl:
  "\<forall>a b c. localeCompare ex_host a b = 0 \<longrightarrow> localeCompare ex_host a c = 0 \<longrightarrow>
     localeCompare ex_host b c = 0"
  using code_compare_eq code_compare_refl by (auto simp: ex_host_def)

lemma ex_names:
  "getExtension ''a.txt'' = ''txt''" "getBaseName ''a.txt'' = ''a''"
  "getExtension ''b.txt'' = ''txt''" "getBaseName ''b.txt'' = ''b''"
  "getExtension ''c.txt'' = ''txt''" "getBaseName ''c.txt'' = ''c''"
  by (simp_all add: getExtension_def getBaseName_def toUint32_def slice_from_def substring0_def)

lemma ex_items:
  "ex_a = \<lparr>id' = ''1'', handle = 1, originalName = ''b.txt'', size' = 5, lastModified = 0,
           type' = [], customBaseName = ''b'', prefix = [], suffix = [], extension = ''txt'',
           status = Pending, errorMessage = None\<rparr>"
  "ex_b = \<lparr>id' = ''2'', handle = 2, originalName = ''a.txt'', size' = 5, lastModified = 0,
           type' = [], customBaseName = ''a'', prefix = [], suffix = [], extension = ''txt'',
           status = Pending, errorMessage = None\<rparr>"
  "ex_c = \<lparr>id' = ''3'', handle = 3, originalName = ''c.txt'', size' = 1, lastModified = 0,
           type' = [], customBaseName = ''c'', prefix = [], suffix = [], extension = ''txt'',
           status = Pending, errorMessage = None\<rparr>"
  by (simp_all add: ex_a_def ex_b_def ex_c_def ex_file_def ex_entry_def ex_meta_def new_item_def ex_names)

lemma ex_visible_all:
  "f \<in> {ex_a, ex_b, ex_c} \<Longrightarrow> matchesSearch (ex_filters\<lparr>sort' := s, limit := l\<rparr>) f \<and>
     matchesDate ex_host (ex_filters\<lparr>sort' := s, limit := l\<rparr>) f"
  by (simp add: matchesSearch_def matchesDate_def ex_filters_def toLowerCase_def includes_Nil)

lemma ex_filter_all:
  "filter (\<lambda>f. matchesSearch (ex_filters\<lparr>sort' := s, limit := l\<rparr>) f \<and>
          matchesDate ex_host (ex_filters\<lparr>sort' := s, limit := l\<rparr>) f) [ex_a, ex_b, ex_c] =
        [ex_a, ex_b, ex_c]"
  using ex_visible_all by simp

lemma ex_sel:
  "sort' (ex_filters\<lparr>sort' := s, limit := l\<rparr>) = s"
  "limit (ex_filters\<lparr>sort' := s, limit := l\<rparr>) = l"
  by simp_all

lemma ex_sort_size:
  "sort_by (compareItems ex_host size_asc) [ex_a, ex_b, ex_c] = [ex_c, ex_a, ex_b]"
  by (simp add: compareItems_def ex_items)

lemma ex_sorted_size:
  "filteredFiles ex_host [ex_a, ex_b, ex_c] (ex_filters\<lparr>sort' := size_asc, limit := l\<rparr>) =
     (case l of Some n \<Rightarrow> if 0 < n then take (nat n) [ex_c, ex_a, ex_b] else [ex_c, ex_a, ex_b]
      | None \<Rightarrow> [ex_c, ex_a, ex_b])"
  unfolding filteredFiles_def ex_filter_all ex_sel ex_sort_size Let_def ..


theorem scan_extension_witness:
  "scan_loop (\<lambda>n. ''u1'') 0 [ex_entry 1 ''photo.jpg'' 10 0] = Inr [ex_file ''u1'' 1 ''photo.jpg'' 10 0] \<and>
   extension (ex_file ''u1'' 1 ''photo.jpg'' 10 0) = ''jpg'' \<and>
   getFinalName (ex_config\<lparr>GlobalConfig.extension := ''png''\<rparr>) (ex_file ''u1'' 1 ''photo.jpg'' 10 0) =
     ''photo.jpg'' \<and>
   getFinalName (ex_config\<lparr>GlobalConfig.extension := ''png''\<rparr>)
     ((ex_file ''u1'' 1 ''photo.jpg'' 10 0)\<lparr>extension := []\<rparr>) = ''photo.png''"
proof -
  let ?f = "ex_file ''u1'' 1 ''photo.jpg'' 10 0"
  have h1: "scan_loop (\<lambda>n. ''u1'') 0 [ex_entry 1 ''photo.jpg'' 10 0] = Inr [?f]"
    by (simp add: ex_file_def ex_entry_def)
  have h2: "?f \<in> set [?f]" by simp
  have e: "getExtension ''photo.jpg'' = ''jpg''" "getBaseName ''photo.jpg'' = ''photo''"
    by (simp_all add: getExtension_def getBaseName_def toUint32_def slice_from_def substring0_def)
  have n: "getFinalName ex_config ?f = ''photo.jpg''"
    "getFinalName ex_config (?f\<lparr>extension := ''png''\<rparr>) = ''photo.png''"
    by (simp_all add: getFinalName_def or_else_def startsWith_def ex_file_def ex_meta_def
         new_item_def ex_config_def e)
  have x: "extension ?f = ''jpg''"
    by (simp add: ex_file_def ex_meta_def new_item_def e)
  note t = scan_extension[OF h1 h2, where g = ex_config and e = "''png''"]
  show ?thesis using t h1 n x e by simp
qed

theorem sort_stable_witness:
  "compareItems ex_host size_asc ex_a ex_b = 0 \<and>
   filteredFiles ex_host [ex_a, ex_b, ex_c] (ex_filters\<lparr>sort' := size_asc\<rparr>) = [ex_c, ex_a, ex_b] \<and>
   subseq [ex_a, ex_b] [ex_a, ex_b, ex_c]"
proof -
  let ?F = "ex_filters\<lparr>sort' := size_asc\<rparr>"
  have F: "?F = ex_filters\<lparr>sort' := size_asc, limit := None\<rparr>" by (simp add: ex_filters_def)
  have eq: "compareItems ex_host (sort' ?F) ex_a ex_b = 0"
    by (simp add: compareItems_def ex_items)
  have v: "filteredFiles ex_host [ex_a, ex_b, ex_c] ?F = [ex_c, ex_a, ex_b]"
    by (subst F) (simp add: ex_sorted_size)
  have vis: "subseq [ex_a, ex_b] (filteredFiles ex_host [ex_a, ex_b, ex_c] ?F)"
    unfolding v by simp
  note t = sort_stable[OF ex_host_refl ex_host_eucl eq vis]
  show ?thesis using t eq v by simp
qed

theorem limit_after_sort_witness:
  "filteredFiles ex_host [ex_a, ex_b, ex_c] (ex_filters\<lparr>sort' := size_asc, limit := Some 2\<rparr>) =
     [ex_c, ex_a] \<and>
   filteredFiles ex_host [ex_a, ex_b, ex_c] (ex_filters\<lparr>sort' := size_asc, limit := Some 0\<rparr>) =
     [ex_c, ex_a, ex_b] \<and>
   filteredFiles ex_host [ex_a, ex_b, ex_c] (ex_filters\<lparr>sort' := size_asc, limit := None\<rparr>) =
     [ex_c, ex_a, ex_b]"
proof -
  let ?F = "\<lambda>l. ex_filters\<lparr>sort' := size_asc, limit := l\<rparr>"
  note t2 = limit_after_sort[of 2 "?F (Some 2)" ex_host "[ex_a, ex_b, ex_c]",
      unfolded ex_filter_all ex_sel ex_sort_size]
  note t0 = limit_after_sort[of 0 "?F (Some 0)" ex_host "[ex_a, ex_b, ex_c]",
      unfolded ex_filter_all ex_sel ex_sort_size]
  note tn = limit_after_sort[of 0 "?F None" ex_host "[ex_a, ex_b, ex_c]",
      unfolded ex_filter_all ex_sel ex_sort_size]
  have a: "filteredFiles ex_host [ex_a, ex_b, ex_c] (?F (Some 2)) = [ex_c, ex_a]"
    using t2 by simp
  have b: "filteredFiles ex_host [ex_a, ex_b, ex_c] (?F (Some 0)) = [ex_c, ex_a, ex_b]"
    using t0 by simp
  have c: "filteredFiles ex_host [ex_a, ex_b, ex_c] (?F None) = [ex_c, ex_a, ex_b]"
    using tn by simp
  show ?thesis using a b c by simp
qed

lemma ex_lines: "pasted_lines ex_pasted = [''x'', '' y '', ''z'']"
  by (simp add: pasted_lines_def split_def split_from.simps startsWith_def trim_def is_space_def
        ex_pasted_def)

lemma ex_trim: "trim '' y '' = ''y''"
  by (simp add: trim_def is_space_def)

theorem applyPastedNames_positional_witness:
  "distinct (map id' [ex_b, ex_a]) \<and>
   applyPastedNames ex_pasted [ex_b, ex_a] [ex_a, ex_b, ex_c] ! 0 = ex_a\<lparr>customBaseName := ''y''\<rparr> \<and>
   applyPastedNames ex_pasted [ex_b, ex_a] [ex_a, ex_b, ex_c] ! 1 = ex_b\<lparr>customBaseName := ''x''\<rparr> \<and>
   applyPastedNames ex_pasted [ex_b, ex_a] [ex_a, ex_b, ex_c] ! 2 = ex_c"
proof -
  have d: "distinct (map id' [ex_b, ex_a])" by (simp add: ex_items)
  note t0 = applyPastedNames_positional[OF d, of 0 "[ex_a, ex_b, ex_c]" ex_pasted]
  note t1 = applyPastedNames_positional[OF d, of 1 "[ex_a, ex_b, ex_c]" ex_pasted]
  note t2 = applyPastedNames_positional[OF d, of 2 "[ex_a, ex_b, ex_c]" ex_pasted]
  have a: "applyPastedNames ex_pasted [ex_b, ex_a] [ex_a, ex_b, ex_c] ! 0 =
             ex_a\<lparr>customBaseName := ''y''\<rparr>"
    using t0[THEN conjunct2, THEN conjunct1, rule_format, of 1]
    by (simp add: ex_lines ex_trim ex_items)
  have b: "applyPastedNames ex_pasted [ex_b, ex_a] [ex_a, ex_b, ex_c] ! 1 =
             ex_b\<lparr>customBaseName := ''x''\<rparr>"
    using t1[THEN conjunct2, THEN conjunct1, rule_format, of 0]
    by (simp add: ex_lines trim_def is_space_def ex_items)
  have c: "applyPastedNames ex_pasted [ex_b, ex_a] [ex_a, ex_b, ex_c] ! 2 = ex_c"
    using t2[THEN conjunct2, THEN conjunct2] by (simp add: ex_items)
  show ?thesis using d a b c by simp
qed

lemma ex_failure:
  "failure ex_io_b_unreadable ex_config ex_a = None"
  "failure ex_io_b_unreadable ex_config ex_b = Some ''NotReadableError''"
  "failure ex_io_b_unreadable ex_config ex_c = None"
  by (simp_all add: failure_def first_fault_def ex_io_b_unreadable_def ex_io_def ex_items)

theorem failure_isolated_witness:
  "status (updatedFiles (the (executeBatch ex_io_b_unreadable ex_config [ex_a, ex_b, ex_c]
      [ex_a, ex_b, ex_c] (Some Map.empty))) ! 0) = Success \<and>
   updatedFiles (the (executeBatch ex_io_b_unreadable ex_config [ex_a, ex_b, ex_c]
      [ex_a, ex_b, ex_c] (Some Map.empty))) ! 1 =
     ex_b\<lparr>status := Error, errorMessage := Some ''NotReadableError''\<rparr> \<and>
   status (updatedFiles (the (executeBatch ex_io_b_unreadable ex_config [ex_a, ex_b, ex_c]
      [ex_a, ex_b, ex_c] (Some Map.empty))) ! 2) = Success"
proof -
  let ?fs = "[ex_a, ex_b, ex_c]"
  let ?st = "the (executeBatch ex_io_b_unreadable ex_config ?fs ?fs (Some Map.empty))"
  have d: "distinct (map id' ?fs)" by (simp add: ex_items)
  note t = failure_isolated[OF d d, where io = ex_io_b_unreadable and g = ex_config
      and dir = Map.empty]
  have a: "status (updatedFiles ?st ! 0) = Success"
    using t[of 0 0] by (auto simp: ex_failure finished_def)
  have b: "updatedFiles ?st ! 1 = ex_b\<lparr>status := Error, errorMessage := Some ''NotReadableError''\<rparr>"
    using t[of 1 1] by (auto simp: ex_failure finished_def)
  have c: "status (updatedFiles ?st ! 2) = Success"
    using t[of 2 2] by (auto simp: ex_failure finished_def)
  show ?thesis using a b c by simp
qed



lemma ex_names2:
  "getExtension ''Data.TXT'' = ''TXT''" "getBaseName ''Data.TXT'' = ''Data''"
  "getExtension ''beta.txt'' = ''txt''" "getBaseName ''beta.txt'' = ''beta''"
  "getExtension ''gamma.txt'' = ''txt''" "getBaseName ''gamma.txt'' = ''gamma''"
  by (simp_all add: getExtension_def getBaseName_def toUint32_def slice_from_def substring0_def)

lemma ex_items2:
  "ex_d = \<lparr>id' = ''4'', handle = 4, originalName = ''Data.TXT'', size' = 2048,
           lastModified = 1704100000000, type' = [], customBaseName = ''Data'', prefix = [],
           suffix = [], extension = ''TXT'', status = Pending, errorMessage = None\<rparr>"
  "ex_e = \<lparr>id' = ''5'', handle = 5, originalName = ''beta.txt'', size' = 10,
           lastModified = 1704100000000, type' = [], customBaseName = ''beta'', prefix = [],
           suffix = [], extension = ''txt'', status = Pending, errorMessage = None\<rparr>"
  "ex_g = \<lparr>id' = ''6'', handle = 6, originalName = ''gamma.txt'', size' = 4096,
           lastModified = 1704100000000, type' = [], customBaseName = ''gamma'', prefix = [],
           suffix = [], extension = ''txt'', status = Pending, errorMessage = None\<rparr>"
  by (simp_all add: ex_d_def ex_e_def ex_g_def ex_file_def ex_entry_def ex_meta_def new_item_def ex_names2)

lemma ex_lower:
  "toLowerCase ''A.T'' = ''a.t''" "toLowerCase ''Data.TXT'' = ''data.txt''"
  "toLowerCase ''beta.txt'' = ''beta.txt''" "toLowerCase ''gamma.txt'' = ''gamma.txt''"
  by code_simp+

lemma ex_search:
  "matchesSearch ex_day ex_d" "matchesSearch ex_day ex_e" "matchesSearch ex_day ex_g"
  by (simp_all add: matchesSearch_def ex_day_def ex_filters_def ex_items2 ex_lower startsWith_def)

lemma ex_date:
  "matchesDate ex_host ex_day ex_d" "matchesDate ex_host ex_day ex_e" "matchesDate ex_host ex_day ex_g"
  by (simp_all add: matchesDate_def ex_day_def ex_filters_def ex_items2 ex_host_def)

lemma ex_size:
  "matchesSize ex_day ex_d" "\<not> matchesSize ex_day ex_e" "matchesSize ex_day ex_g"
  by (simp_all add: matchesSize_def ex_day_def ex_filters_def ex_items2)


lemma ex_compare:
  "code_compare ''Data.TXT'' ''beta.txt'' = - 1" "code_compare ''beta.txt'' ''gamma.txt'' = - 1"
  "code_compare ''Data.TXT'' ''gamma.txt'' = - 1" "code_compare ''beta.txt'' ''Data.TXT'' = 1"
  "code_compare ''gamma.txt'' ''beta.txt'' = 1" "code_compare ''gamma.txt'' ''Data.TXT'' = 1"
  by code_simp+

lemma ex_sort_name:
  "sort_by (compareItems ex_host name_asc) [ex_g, ex_e, ex_d] = [ex_d, ex_e, ex_g]"
  "sort_by (compareItems ex_host name_asc) [ex_g, ex_d] = [ex_d, ex_g]"
  by (simp_all add: compareItems_def ex_items2 ex_host_def ex_compare)

lemma ex_day_sel: "sort' ex_day = name_asc" "limit ex_day = None"
  "sort' (ex_day\<lparr>limit := l\<rparr>) = name_asc" "limit (ex_day\<lparr>limit := l\<rparr>) = l"
  by (simp_all add: ex_day_def ex_filters_def)

lemma ex_day_filter:
  "filter (\<lambda>f. matchesSearch ex_day f \<and> matchesDate ex_host ex_day f) [ex_g, ex_e, ex_d] =
     [ex_g, ex_e, ex_d]"
  "filter (\<lambda>f. matchesSearch ex_day f \<and> matchesSize ex_day f \<and> matchesDate ex_host ex_day f)
     [ex_g, ex_e, ex_d] = [ex_g, ex_d]"
  by (simp_all add: ex_search ex_date ex_size)

lemma ex_day_visible:
  "filteredFiles ex_host [ex_g, ex_e, ex_d] ex_day = [ex_d, ex_e, ex_g]"
  "filteredFiles2 ex_host [ex_g, ex_e, ex_d] ex_day = [ex_d, ex_g]"
  "filteredFiles ex_host [ex_g, ex_e, ex_d] (ex_day\<lparr>limit := Some 1\<rparr>) = [ex_d]"
  unfolding filteredFiles_def filteredFiles2_def matches_limit ex_day_filter ex_day_sel ex_sort_name Let_def
  by simp_all

lemma ex_distinct2: "ex_d \<noteq> ex_g" "ex_d \<noteq> ex_e" "ex_e \<noteq> ex_g"
  by (simp_all add: ex_items2)


theorem visible_clauses_witness:
  "filteredFiles2 ex_host [ex_g, ex_e, ex_d] ex_day = [ex_d, ex_g] \<and>
   search_clause ex_day ex_d \<and> size_clause ex_day ex_d \<and> date_clause ex_host ex_day ex_d \<and>
   filteredFiles ex_host [ex_g, ex_e, ex_d] ex_day = [ex_d, ex_e, ex_g] \<and>
   search_clause ex_day ex_e \<and> date_clause ex_host ex_day ex_e \<and>
   search_clause ex_filters ex_e \<and> size_clause ex_filters ex_e \<and> date_clause ex_host ex_filters ex_e"
proof -
  note td = visible_clauses[of ex_d ex_host "[ex_g, ex_e, ex_d]" ex_day]
  note te = visible_clauses[of ex_e ex_host "[ex_g, ex_e, ex_d]" ex_day]
  note tf = visible_clauses[of ex_e ex_host "[ex_g, ex_e, ex_d]" ex_filters]
  have d: "search_clause ex_day ex_d \<and> size_clause ex_day ex_d \<and> date_clause ex_host ex_day ex_d"
    using td by (simp add: ex_day_visible)
  have e: "search_clause ex_day ex_e \<and> date_clause ex_host ex_day ex_e"
    using te by (simp add: ex_day_visible)
  have f: "search_clause ex_filters ex_e \<and> size_clause ex_filters ex_e \<and>
           date_clause ex_host ex_filters ex_e"
    using tf by (simp add: ex_filters_def ex_items2)
  show ?thesis using d e f by (simp add: ex_day_visible)
qed


text \<open>
  Against claim C4 as stated: in the component with the limit, \<open>ex_e\<close> is visible although
  it is smaller than the minimum size, and with a limit of one \<open>ex_g\<close> is not visible
  although it satisfies all three clauses.
\<close>

theorem visible_clauses_counterexample:
  "ex_e \<in> set (filteredFiles ex_host [ex_g, ex_e, ex_d] ex_day) \<and>
   \<not> size_clause ex_day ex_e \<and>
   ex_g \<in> set [ex_g, ex_e, ex_d] \<and>
   search_clause (ex_day\<lparr>limit := Some 1\<rparr>) ex_g \<and>
   size_clause (ex_day\<lparr>limit := Some 1\<rparr>) ex_g \<and>
   date_clause ex_host (ex_day\<lparr>limit := Some 1\<rparr>) ex_g \<and>
   ex_g \<notin> set (filteredFiles ex_host [ex_g, ex_e, ex_d] (ex_day\<lparr>limit := Some 1\<rparr>))"
proof -
  have a: "ex_e \<in> set (filteredFiles ex_host [ex_g, ex_e, ex_d] ex_day)"
    by (simp add: ex_day_visible)
  have b: "\<not> size_clause ex_day ex_e"
    using ex_size by (simp add: size_clause_def matchesSize_def)
  have c: "search_clause (ex_day\<lparr>limit := Some 1\<rparr>) ex_g"
    using ex_search(3) by (simp add: matchesSearch_iff search_clause_def)
  have d: "size_clause (ex_day\<lparr>limit := Some 1\<rparr>) ex_g"
    using ex_size(3) by (simp add: size_clause_def matchesSize_def)
  have e: "date_clause ex_host (ex_day\<lparr>limit := Some 1\<rparr>) ex_g"
    using ex_date(3) by (simp add: matchesDate_iff date_clause_def)
  have f: "ex_g \<notin> set (filteredFiles ex_host [ex_g, ex_e, ex_d] (ex_day\<lparr>limit := Some 1\<rparr>))"
    using ex_distinct2 by (simp add: ex_day_visible)
  show ?thesis using a b c d e f by simp
qed

lemma ex_failure_unreadable: "failure ex_io_unreadable g f = Some ''NotReadableError''"
  by (simp add: failure_def ex_io_unreadable_def)

lemma ex_failure_none: "failure ex_io g f = None"
  by (simp add: failure_def first_fault_def ex_io_def)

lemma ex_run_a:
  "updatedFiles (the (executeBatch ex_io ex_config [ex_a] [ex_a] (Some Map.empty))) =
     [ex_a\<lparr>status := Success\<rparr>]"
  by (simp add: executeBatch_def batch_step_files' ex_failure_none update_at_def finished_def)


theorem terminal_kept_witness:
  "terminal (status (updatedFiles (the (executeBatch ex_io_b_unreadable ex_config
      [ex_a, ex_b, ex_c] (take 1 [ex_a, ex_b]) (Some Map.empty))) ! 0)) \<and>
   updatedFiles (the (executeBatch ex_io_b_unreadable ex_config
      [ex_a, ex_b, ex_c] [ex_a, ex_b] (Some Map.empty))) ! 0 =
   updatedFiles (the (executeBatch ex_io_b_unreadable ex_config
      [ex_a, ex_b, ex_c] (take 1 [ex_a, ex_b]) (Some Map.empty))) ! 0 \<and>
   updatedFiles (the (executeBatch ex_io_b_unreadable ex_config
      [ex_a, ex_b, ex_c] [ex_a, ex_b] (Some Map.empty))) ! 2 = ex_c \<and>
   map status (applyPastedNames ex_pasted [ex_b, ex_a] [ex_a, ex_b, ex_c]) =
     [Pending, Pending, Pending]"
proof -
  let ?fs = "[ex_a, ex_b, ex_c]"
  let ?vs = "[ex_a, ex_b]"
  let ?st = "the (executeBatch ex_io_b_unreadable ex_config ?fs ?vs (Some Map.empty))"
  let ?stj = "the (executeBatch ex_io_b_unreadable ex_config ?fs (take 1 ?vs) (Some Map.empty))"
  have d: "distinct (map id' ?fs)" and dv: "distinct (map id' ?vs)" by (simp_all add: ex_items)
  have run: "executeBatch ex_io_b_unreadable ex_config ?fs ?vs (Some Map.empty) = Some ?st"
    by (simp add: executeBatch_def)
  have runj: "executeBatch ex_io_b_unreadable ex_config ?fs (take 1 ?vs) (Some Map.empty) = Some ?stj"
    by (simp add: executeBatch_def)
  have k: "0 < length ?vs" and j: "(0::nat) < 1" "1 \<le> length ?vs" and i: "0 < length ?fs"
    and eq: "id' (?fs ! 0) = id' (?vs ! 0)"
    by simp_all
  note t = terminal_kept[OF d dv run k j runj i eq,
      where pasted = ex_pasted and visible' = "[ex_b, ex_a]"]
  have s: "map status ?fs = [Pending, Pending, Pending]" by (simp add: ex_items)
  have c: "updatedFiles ?st ! 2 = ex_c" using t by (simp add: ex_items)
  show ?thesis using t c s by simp
qed


text \<open>
  Against claim C6 as stated: \<open>ex_a\<close> is copied with success; a second batch run over it,
  in which its file cannot be read, first publishes it as processing and leaves it with
  status error.
\<close>

theorem terminal_kept_counterexample:
  "status (updatedFiles (the (executeBatch ex_io ex_config [ex_a] [ex_a] (Some Map.empty))) ! 0) =
     Success \<and>
   terminal Success \<and>
   status (setFiles_log (the (executeBatch ex_io_unreadable ex_config
      (updatedFiles (the (executeBatch ex_io ex_config [ex_a] [ex_a] (Some Map.empty))))
      (updatedFiles (the (executeBatch ex_io ex_config [ex_a] [ex_a] (Some Map.empty))))
      (Some (destDir (the (executeBatch ex_io ex_config [ex_a] [ex_a] (Some Map.empty))))))) ! 0 ! 0) =
     Processing \<and>
   status (updatedFiles (the (executeBatch ex_io_unreadable ex_config
      (updatedFiles (the (executeBatch ex_io ex_config [ex_a] [ex_a] (Some Map.empty))))
      (updatedFiles (the (executeBatch ex_io ex_config [ex_a] [ex_a] (Some Map.empty))))
      (Some (destDir (the (executeBatch ex_io ex_config [ex_a] [ex_a] (Some Map.empty))))))) ! 0) =
     Error"
proof -
  let ?d = "destDir (the (executeBatch ex_io ex_config [ex_a] [ex_a] (Some Map.empty)))"
  let ?f1 = "[ex_a\<lparr>status := Success\<rparr>]"
  have log: "setFiles_log (the (executeBatch ex_io_unreadable ex_config ?f1 ?f1 (Some ?d))) ! 0 =
          [ex_a\<lparr>status := Processing\<rparr>]"
    by (simp add: executeBatch_def batch_step_log update_at_def)
  have fin: "updatedFiles (the (executeBatch ex_io_unreadable ex_config ?f1 ?f1 (Some ?d))) =
          [ex_a\<lparr>status := Error, errorMessage := Some ''NotReadableError''\<rparr>]"
    by (simp add: executeBatch_def batch_step_files' ex_failure_unreadable update_at_def finished_def)
  show ?thesis unfolding ex_run_a using log fin by (simp add: terminal_def)
qed

lemma ex_name2:
  "getFinalName2 ex_config (ex_a\<lparr>status := s, errorMessage := m\<rparr>) = ''b.txt''"
  "getFinalName2 ex_config (ex_b\<lparr>status := s, errorMessage := m\<rparr>) = ''a.txt''"
  "getFinalName2 ex_config ex_a = ''b.txt''" "getFinalName2 ex_config ex_b = ''a.txt''"
  "getFinalName ex_config ex_a = ''b.txt''"
  by (simp_all add: getFinalName2_def getFinalName_def or_else_def startsWith_def ex_config_def ex_items)

lemma ex_handles: "handle ex_a = 1" "handle ex_b = 2" "id' ex_a = ''1''" "id' ex_b = ''2''"
  by (simp_all add: ex_items)

lemma ex_write: "write_file ex_io nm b dir = (None, dir(nm \<mapsto> b))"
  by (auto simp: write_file_def ex_io_def Let_def split: option.splits)

lemma ex_getFile: "getFile ex_io h = Inr [h]" "\<not> overwrite ex_config"
  by (simp_all add: ex_io_def ex_config_def)

lemma ex_copy2_absent:
  "dir (getFinalName2 ex_config f) = None \<Longrightarrow>
   copy_item2 ex_io ex_config f dir = (Written, dir(getFinalName2 ex_config f \<mapsto> [handle f]))"
  by (simp add: copy_item2_def ex_write Let_def ex_getFile)

lemma ex_copy2_present:
  "dir (getFinalName2 ex_config f) \<noteq> None \<Longrightarrow> copy_item2 ex_io ex_config f dir = (Exists, dir)"
  by (simp add: copy_item2_def Let_def ex_getFile)

lemma name2_status:
  "getFinalName2 g (u\<lparr>status := s\<rparr>) = getFinalName2 g u"
  "getFinalName2 g (u\<lparr>errorMessage := m\<rparr>) = getFinalName2 g u"
  by (simp_all add: getFinalName2_def)

lemma ex_first_run_files:
  "updatedFiles ex_first_run = [ex_a\<lparr>status := Success\<rparr>, ex_b\<lparr>status := Success\<rparr>]"
  "destDir ex_first_run = Map.empty(''b.txt'' \<mapsto> [1], ''a.txt'' \<mapsto> [2])"
  by (simp_all add: ex_first_run_def executeBatch2_def batch_step2_def Let_def update_at_def
        ex_copy2_absent ex_name2 ex_handles)

lemma ex_run_b_files:
  "updatedFiles ex_run_b = [ex_a\<lparr>status := Skipped, errorMessage := Some ''Ya existe''\<rparr>]"
  "destDir ex_run_b = ex_dir_b"
  by (simp_all add: ex_run_b_def executeBatch2_def batch_step2_def Let_def update_at_def
        ex_copy2_present name2_status ex_name2 ex_handles ex_dir_b_def)


lemma ex_second_run_files:
  "updatedFiles ex_second_run =
     [ex_a\<lparr>status := Skipped, errorMessage := Some ''Ya existe''\<rparr>,
      ex_b\<lparr>status := Skipped, errorMessage := Some ''Ya existe''\<rparr>]"
  "destDir ex_second_run = destDir ex_first_run"
  by (simp_all add: ex_second_run_def ex_first_run_files executeBatch2_def batch_step2_def Let_def
        update_at_def ex_copy2_present name2_status ex_name2 ex_handles)


lemma ex_twin_item:
  "ex_twin = \<lparr>id' = ''7'', handle = 7, originalName = ''b.txt'', size' = 9, lastModified = 0,
              type' = [], customBaseName = ''b'', prefix = [], suffix = [], extension = ''txt'',
              status = Pending, errorMessage = None\<rparr>"
  by (simp add: ex_twin_def ex_file_def ex_entry_def ex_meta_def new_item_def ex_names)

lemma ex_twin_name: "getFinalName2 ex_config ex_twin = ''b.txt''" "handle ex_twin = 7"
  "id' ex_twin = ''7''"
  by (simp_all add: getFinalName2_def or_else_def startsWith_def ex_config_def ex_twin_item)

lemma ex_twin_turn:
  "destDir (the (executeBatch2 ex_io ex_config [ex_a, ex_twin] [ex_a] (Some Map.empty))) =
     Map.empty(''b.txt'' \<mapsto> [1])"
  by (simp add: executeBatch2_def batch_step2_def Let_def ex_copy2_absent ex_name2 ex_handles)

lemma ex_twin_run_files:
  "updatedFiles ex_twin_run =
     [ex_a\<lparr>status := Success\<rparr>,
      ex_twin\<lparr>status := Skipped, errorMessage := Some ''Ya existe''\<rparr>]"
  "destDir ex_twin_run = Map.empty(''b.txt'' \<mapsto> [1])"
  by (simp_all add: ex_twin_run_def executeBatch2_def batch_step2_def Let_def update_at_def
        ex_copy2_absent ex_copy2_present ex_name2 ex_handles ex_twin_name)

theorem collision_skips_witness:
  "status (updatedFiles ex_first_run ! 0) = Success \<and>
   updatedFiles ex_second_run ! 0 = ex_a\<lparr>status := Skipped, errorMessage := Some ''Ya existe''\<rparr> \<and>
   destDir ex_second_run ''b.txt'' = Some [1] \<and>
   ex_dir_b (getFinalName2 ex_config ex_a) = Some [9] \<and>
   updatedFiles ex_run_b ! 0 = ex_a\<lparr>status := Skipped, errorMessage := Some ''Ya existe''\<rparr> \<and>
   destDir ex_run_b ''b.txt'' = Some [9] \<and>
   destDir (the (executeBatch2 ex_io ex_config [ex_a, ex_twin] (take 1 [ex_a, ex_twin])
      (Some Map.empty))) (getFinalName2 ex_config ex_twin) = Some [1] \<and>
   updatedFiles ex_twin_run ! 1 =
     ex_twin\<lparr>status := Skipped, errorMessage := Some ''Ya existe''\<rparr> \<and>
   destDir ex_twin_run ''b.txt'' = Some [1]"
proof -
  have ow: "\<not> overwrite ex_config" by (simp add: ex_config_def)
  have dA: "distinct (map id' [ex_a, ex_b])" by (simp add: ex_items)
  have dA2: "distinct (map id' (updatedFiles ex_first_run))"
    by (simp add: ex_first_run_files ex_items)
  have rA1: "executeBatch2 ex_io ex_config [ex_a, ex_b] [ex_a, ex_b] (Some Map.empty) = Some ex_first_run"
    by (simp add: ex_first_run_def executeBatch2_def)
  have rA2: "executeBatch2 ex_io ex_config (updatedFiles ex_first_run) (updatedFiles ex_first_run)
               (Some (destDir ex_first_run)) = Some ex_second_run"
    by (simp add: ex_second_run_def executeBatch2_def)
  have kA: "0 < length [ex_a, ex_b]" "[ex_a, ex_b] ! 0 = [ex_a, ex_b] ! 0"
    "0 < length (updatedFiles ex_first_run)"
    "updatedFiles ex_first_run ! 0 = updatedFiles ex_first_run ! 0"
    by (simp_all add: ex_first_run_files)
  have uA: "executeBatch2 ex_io ex_config [ex_a, ex_b] (take 0 [ex_a, ex_b]) (Some Map.empty) =
      Some (the (executeBatch2 ex_io ex_config [ex_a, ex_b] (take 0 [ex_a, ex_b]) (Some Map.empty)))"
    "executeBatch2 ex_io ex_config [ex_a, ex_b] (take (Suc 0) [ex_a, ex_b]) (Some Map.empty) =
      Some (the (executeBatch2 ex_io ex_config [ex_a, ex_b] (take (Suc 0) [ex_a, ex_b])
        (Some Map.empty)))"
    by (simp_all add: executeBatch2_def)
  note tA = collision_skips[OF ow dA dA dA2 rA1 rA2 kA(1) kA(1) kA(2) kA(3) kA(4) uA]
  have a1: "status (updatedFiles ex_first_run ! 0) = Success"
    by (simp add: ex_first_run_files)
  have a2: "updatedFiles ex_second_run ! 0 =
              ex_a\<lparr>status := Skipped, errorMessage := Some ''Ya existe''\<rparr>"
    using tA a1 by (simp add: ex_getFile ex_first_run_files)
  have a3: "destDir ex_second_run ''b.txt'' = Some [1]"
    using tA by (simp add: ex_first_run_files)
  have dB: "distinct (map id' [ex_a])" by simp
  have dB2: "distinct (map id' (updatedFiles ex_run_b))" by (simp add: ex_run_b_files)
  have rB1: "executeBatch2 ex_io ex_config [ex_a] [ex_a] (Some ex_dir_b) = Some ex_run_b"
    by (simp add: ex_run_b_def executeBatch2_def)
  have rB2: "executeBatch2 ex_io ex_config (updatedFiles ex_run_b) (updatedFiles ex_run_b)
               (Some (destDir ex_run_b)) = Some ex_rerun_b"
    by (simp add: ex_rerun_b_def executeBatch2_def)
  have kB: "0 < length [ex_a]" "[ex_a] ! 0 = [ex_a] ! 0" "0 < length (updatedFiles ex_run_b)"
    "updatedFiles ex_run_b ! 0 = updatedFiles ex_run_b ! 0"
    by (simp_all add: ex_run_b_files)
  have uB: "executeBatch2 ex_io ex_config [ex_a] (take 0 [ex_a]) (Some ex_dir_b) =
      Some (the (executeBatch2 ex_io ex_config [ex_a] (take 0 [ex_a]) (Some ex_dir_b)))"
    "executeBatch2 ex_io ex_config [ex_a] (take (Suc 0) [ex_a]) (Some ex_dir_b) =
      Some (the (executeBatch2 ex_io ex_config [ex_a] (take (Suc 0) [ex_a]) (Some ex_dir_b)))"
    by (simp_all add: executeBatch2_def)
  note tB = collision_skips[OF ow dB dB dB2 rB1 rB2 kB(1) kB(1) kB(2) kB(3) kB(4) uB]
  have b0: "ex_dir_b (getFinalName2 ex_config ex_a) = Some [9]"
    by (simp add: ex_dir_b_def ex_name2)
  have b1: "updatedFiles ex_run_b ! 0 = ex_a\<lparr>status := Skipped, errorMessage := Some ''Ya existe''\<rparr>"
    using tB b0 by (simp add: ex_getFile)
  have b2: "destDir ex_run_b ''b.txt'' = Some [9]"
    using tB by (simp add: ex_dir_b_def)
  have dC: "distinct (map id' [ex_a, ex_twin])" by (simp add: ex_items ex_twin_item)
  have dC2: "distinct (map id' (updatedFiles ex_twin_run))"
    by (simp add: ex_twin_run_files ex_items ex_twin_item)
  have rC1: "executeBatch2 ex_io ex_config [ex_a, ex_twin] [ex_a, ex_twin] (Some Map.empty) =
      Some ex_twin_run"
    by (simp add: ex_twin_run_def executeBatch2_def)
  have rC2: "executeBatch2 ex_io ex_config (updatedFiles ex_twin_run) (updatedFiles ex_twin_run)
               (Some (destDir ex_twin_run)) = Some ex_twin_rerun"
    by (simp add: ex_twin_rerun_def executeBatch2_def)
  have kC: "1 < length [ex_a, ex_twin]" "[ex_a, ex_twin] ! 1 = [ex_a, ex_twin] ! 1"
    "1 < length (updatedFiles ex_twin_run)"
    "updatedFiles ex_twin_run ! 1 = updatedFiles ex_twin_run ! 1"
    by (simp_all add: ex_twin_run_files)
  have uC: "executeBatch2 ex_io ex_config [ex_a, ex_twin] (take 1 [ex_a, ex_twin]) (Some Map.empty) =
      Some (the (executeBatch2 ex_io ex_config [ex_a, ex_twin] (take 1 [ex_a, ex_twin])
        (Some Map.empty)))"
    "executeBatch2 ex_io ex_config [ex_a, ex_twin] (take (Suc 1) [ex_a, ex_twin]) (Some Map.empty) =
      Some (the (executeBatch2 ex_io ex_config [ex_a, ex_twin] (take (Suc 1) [ex_a, ex_twin])
        (Some Map.empty)))"
    by (simp_all add: executeBatch2_def)
  note tC = collision_skips[OF ow dC dC dC2 rC1 rC2 kC(1) kC(1) kC(2) kC(3) kC(4) uC]
  have c0: "destDir (the (executeBatch2 ex_io ex_config [ex_a, ex_twin] (take 1 [ex_a, ex_twin])
      (Some Map.empty))) (getFinalName2 ex_config ex_twin) = Some [1]"
    by (simp add: ex_twin_turn ex_twin_name)
  have c1: "updatedFiles ex_twin_run ! 1 =
     ex_twin\<lparr>status := Skipped, errorMessage := Some ''Ya existe''\<rparr>"
    using tC[THEN conjunct1, rule_format, of "[7]"] c0
    by (simp add: ex_getFile ex_twin_name)
  have c2: "destDir ex_twin_run ''b.txt'' = Some [1]"
    using tC[THEN conjunct2, THEN conjunct2, THEN conjunct1, rule_format, of "''b.txt''"] c0
    by (simp add: ex_twin_name)
  show ?thesis using a1 a2 a3 b0 b1 b2 c0 c1 c2 by simp
qed

lemma ex_first_component_overwrites:
  "updatedFiles (the (executeBatch ex_io ex_config [ex_a] [ex_a] (Some ex_dir_b))) =
     [ex_a\<lparr>status := Success\<rparr>]"
  "destDir (the (executeBatch ex_io ex_config [ex_a] [ex_a] (Some ex_dir_b))) ''b.txt'' = Some [1]"
  by (simp_all add: executeBatch_def batch_step_def copy_item_def Let_def update_at_def ex_write
        ex_getFile ex_name2 ex_handles)

lemma ex_unreadable_b:
  "updatedFiles (the (executeBatch2 ex_io_unreadable ex_config [ex_a] [ex_a] (Some ex_dir_b))) =
     [ex_a\<lparr>status := Error, errorMessage := Some ''NotReadableError''\<rparr>]"
  by (simp add: executeBatch2_def batch_step2_def copy_item2_def Let_def update_at_def
        ex_io_unreadable_def)


text \<open>
  Against claim C2 as stated: with overwriting disabled and \<open>b.txt\<close> in the destination,
  the second component skips \<open>ex_a\<close> with the message \<open>Ya existe\<close>, which is not
  \<open>already exists\<close>; when the source cannot be read the item ends with status error,
  not skipped; and the first component (lines 184-207) writes over the file and reports
  success.
\<close>

theorem collision_skips_counterexample:
  "overwrite ex_config = False \<and>
   ex_dir_b (getFinalName2 ex_config ex_a) = Some [9] \<and>
   status (updatedFiles ex_run_b ! 0) = Skipped \<and>
   errorMessage (updatedFiles ex_run_b ! 0) = Some ''Ya existe'' \<and>
   errorMessage (updatedFiles ex_run_b ! 0) \<noteq> Some ''already exists'' \<and>
   status (updatedFiles (the (executeBatch2 ex_io_unreadable ex_config [ex_a] [ex_a]
      (Some ex_dir_b))) ! 0) = Error \<and>
   ex_dir_b (getFinalName ex_config ex_a) = Some [9] \<and>
   status (updatedFiles (the (executeBatch ex_io ex_config [ex_a] [ex_a] (Some ex_dir_b))) ! 0) =
     Success \<and>
   destDir (the (executeBatch ex_io ex_config [ex_a] [ex_a] (Some ex_dir_b))) ''b.txt'' = Some [1]"
proof -
  have a: "overwrite ex_config = False" by (simp add: ex_config_def)
  have b: "ex_dir_b (getFinalName2 ex_config ex_a) = Some [9]"
    "ex_dir_b (getFinalName ex_config ex_a) = Some [9]"
    by (simp_all add: ex_name2 ex_dir_b_def)
  have c: "status (updatedFiles ex_run_b ! 0) = Skipped"
    "errorMessage (updatedFiles ex_run_b ! 0) = Some ''Ya existe''"
    "errorMessage (updatedFiles ex_run_b ! 0) \<noteq> Some ''already exists''"
    by (simp_all add: ex_run_b_files)
  have d: "status (updatedFiles (the (executeBatch2 ex_io_unreadable ex_config [ex_a] [ex_a]
      (Some ex_dir_b))) ! 0) = Error"
    by (simp add: ex_unreadable_b)
  have e: "status (updatedFiles (the (executeBatch ex_io ex_config [ex_a] [ex_a] (Some ex_dir_b))) ! 0) =
     Success"
    "destDir (the (executeBatch ex_io ex_config [ex_a] [ex_a] (Some ex_dir_b))) ''b.txt'' = Some [1]"
    by (simp_all add: ex_first_component_overwrites)
  show ?thesis using a b c d e by blast
qed

end
